theory Spec2Isabelle
  imports Complex_Main "HOL-Library.AList"
begin

section \<open>JSON payloads and the JavaScript operators applied to them\<close>

text \<open>
  Every remote payload reaches the program through \<^verbatim>\<open>await response.json() as any\<close>.
  A payload is a JSON value; an object is the list of its own properties (the keys of a
  parsed object are distinct). A JavaScript value that may be \<^verbatim>\<open>undefined\<close> is a
  \<open>json option\<close>, with \<open>None\<close> for \<^verbatim>\<open>undefined\<close>.
\<close>

datatype json =
    JNull
  | JBool bool
  | JNum rat
  | JStr string
  | JArr "json list"
  | JObj "(string \<times> json) list"

datatype error =
    TypeError
  | SyntaxError
  | NetworkFailure
  | NotAuthenticated
  | DeviceInitFailed string
  | StatusCheckFailed
  | AuthorizationExpired
  | AuthorizationDenied
  | AuthorizationTimeout
  | TokenExchangeFailed string
  | SaveConfigFailed
  | FetchServersFailed nat
  | AppNotFound string
  | RunNotFound string
  | GetAppInfoFailed nat
  | DeploymentFailed nat string
  | UploadFailed nat string
  | DeployFailed nat string
  | GetStatusFailed nat
  | ListRunsFailed nat
  | ApiRequestFailed nat string
  | NoServerUrl
  | ArchiveFailed
  | FileReadFailed
  | UnlinkFailed
  | OpenFailed
  | UnknownTool string

text \<open>JavaScript truthiness: \<^verbatim>\<open>null\<close>, \<^verbatim>\<open>false\<close>, \<^verbatim>\<open>0\<close>, \<^verbatim>\<open>""\<close> and
  \<^verbatim>\<open>undefined\<close> are falsy; every array and object is truthy, the empty ones too.\<close>

fun truthy :: "json \<Rightarrow> bool" where
  "truthy JNull = False"
| "truthy (JBool b) = b"
| "truthy (JNum n) = (n \<noteq> 0)"
| "truthy (JStr s) = (s \<noteq> [])"
| "truthy (JArr xs) = True"
| "truthy (JObj kvs) = True"

definition js_truthy :: "json option \<Rightarrow> bool" where
  "js_truthy v = (case v of None \<Rightarrow> False | Some j \<Rightarrow> truthy j)"

text \<open>\<^verbatim>\<open>a || b\<close>.\<close>

definition js_or :: "json option \<Rightarrow> json option \<Rightarrow> json option" where
  "js_or a b = (if js_truthy a then a else b)"

text \<open>
  \<^verbatim>\<open>x.f\<close> for the property names the sources read (\<^verbatim>\<open>data\<close>, \<^verbatim>\<open>status\<close>,
  \<^verbatim>\<open>app_name\<close>, \<^verbatim>\<open>name\<close>, \<^verbatim>\<open>run_id\<close>, ...), none of which a string, number,
  boolean or array inherits: reading a property of \<^verbatim>\<open>null\<close> or \<^verbatim>\<open>undefined\<close>
  throws a TypeError, an object yields its own property, anything else yields
  \<^verbatim>\<open>undefined\<close>.
\<close>

fun js_prop :: "json option \<Rightarrow> string \<Rightarrow> error + json option" where
  "js_prop None f = Inl TypeError"
| "js_prop (Some JNull) f = Inl TypeError"
| "js_prop (Some (JObj kvs)) f = Inr (map_of kvs f)"
| "js_prop (Some (JBool b)) f = Inr None"
| "js_prop (Some (JNum n)) f = Inr None"
| "js_prop (Some (JStr s)) f = Inr None"
| "js_prop (Some (JArr xs)) f = Inr None"

section \<open>The credential bundle (types.ts)\<close>

record user_info =
  user_id :: string
  user_email :: string
  user_name :: string

record org_info =
  org_id :: string
  org_name :: string
  org_role :: string

text \<open>\<open>expires_at\<close> is an instant in milliseconds, as \<^verbatim>\<open>Date.now()\<close> counts them;
  it is the sum of a clock reading and a lifetime the identity provider reports, so it need
  not be a whole number.\<close>

record device_auth_config =
  access_token :: string
  token_type :: string
  expires_at :: rat
  user :: user_info
  organization :: org_info

section \<open>The outside world\<close>

datatype http_method = GET | POST

datatype req_body =
    NoBody
  | JsonBody json
  | FileUpload string int "nat list"

text \<open>
  A request as \<^verbatim>\<open>fetch\<close> receives it. A value that the source interpolates into the
  URL from an untyped payload (the device code) is kept as it is in \<open>req_query\<close>; all other
  URLs are plain strings.
\<close>

record request =
  req_method :: http_method
  req_url :: string
  req_query :: "(string \<times> json option) list"
  req_headers :: "(string \<times> string) list"
  req_body :: req_body

text \<open>\<open>body_json\<close> is what \<^verbatim>\<open>response.json()\<close> resolves to, \<open>None\<close> when the body
  is not JSON and the call rejects with a SyntaxError.\<close>

record response =
  status :: nat
  statusText :: string
  body_text :: string
  body_json :: "json option"

datatype fetch_result = Rejected | Responded response

text \<open>\<^verbatim>\<open>response.ok\<close>: the status is in the range 200-299.\<close>

definition ok :: "response \<Rightarrow> bool" where
  "ok r = (200 \<le> status r \<and> status r \<le> 299)"

text \<open>What is found at \<^verbatim>\<open>~/.citizen/mcp-config.json\<close>: no file, a file that cannot be
  read, a file whose content \<^verbatim>\<open>JSON.parse\<close> rejects (or parses to \<^verbatim>\<open>null\<close>, whose
  \<^verbatim>\<open>expires_at\<close> cannot be read), or a stored bundle.\<close>

datatype config_file = Missing | Unreadable | Malformed | Stored device_auth_config

text \<open>
  The effects the program has on its surroundings, as functions of a world state \<open>'w\<close>
  that every effect may change: the network, the clock, the credential file, the archive
  builder, the temporary archive file, the packaged instructions file and the system
  browser. An effect that can throw yields \<open>None\<close> or \<open>False\<close> when it does.
\<close>

record 'w io =
  io_fetch :: "request \<Rightarrow> 'w \<Rightarrow> fetch_result \<times> 'w"
  io_now :: "'w \<Rightarrow> int"
  io_config_file :: "'w \<Rightarrow> config_file"
  io_save_config :: "device_auth_config \<Rightarrow> 'w \<Rightarrow> bool \<times> 'w"
  io_create_tar :: "string \<Rightarrow> 'w \<Rightarrow> string option \<times> 'w"
  io_read_file :: "string \<Rightarrow> 'w \<Rightarrow> nat list option"
  io_unlink :: "string \<Rightarrow> 'w \<Rightarrow> bool \<times> 'w"
  io_instructions :: "'w \<Rightarrow> string option"
  io_open :: "string \<Rightarrow> 'w \<Rightarrow> bool \<times> 'w"

datatype log_event =
    TokenExpiredNotice
  | LoadConfigError
  | AuthorizationPrompt "json option" "json option"
  | AuthorizedNotice
  | AuthenticatedAs string string string
  | FailedToFetchApps string nat
  | ErrorFetchingApps string error
  | DebugRun "json option"

text \<open>The world together with what the program has done to it so far: every exchange with
  the network, in order, and every line written to the console.\<close>

record 'w env =
  world :: 'w
  exchanges :: "(request \<times> fetch_result) list"
  console :: "log_event list"

definition log_line :: "log_event \<Rightarrow> 'w env \<Rightarrow> 'w env" where
  "log_line e env = env\<lparr>console := console env @ [e]\<rparr>"

text \<open>\<^verbatim>\<open>await fetch(...)\<close>: the one way the program reaches the network.\<close>

definition do_fetch :: "'w io \<Rightarrow> request \<Rightarrow> 'w env \<Rightarrow> fetch_result \<times> 'w env" where
  "do_fetch io req env =
     (let (r, w') = io_fetch io req (world env)
      in (r, env\<lparr>world := w', exchanges := exchanges env @ [(req, r)]\<rparr>))"

section \<open>Credential store (auth/device-flow.ts)\<close>

text \<open>
  \<^verbatim>\<open>loadConfig\<close>: nothing when the file is absent; inside the \<^verbatim>\<open>try\<close>, a read or
  parse failure is logged and gives nothing; a bundle is refused, with a notice, when
  \<^verbatim>\<open>Date.now() > config.expires_at\<close>; otherwise the bundle is returned.
\<close>

definition loadConfig :: "'w io \<Rightarrow> 'w env \<Rightarrow> device_auth_config option \<times> 'w env" where
  "loadConfig io env =
     (case io_config_file io (world env) of
        Missing \<Rightarrow> (None, env)
      | Unreadable \<Rightarrow> (None, log_line LoadConfigError env)
      | Malformed \<Rightarrow> (None, log_line LoadConfigError env)
      | Stored config \<Rightarrow>
          if of_int (io_now io (world env)) > expires_at config
          then (None, log_line TokenExpiredNotice env)
          else (Some config, env))"

section \<open>Remote API gateway (api/client.ts)\<close>

record client =
  client_baseUrl :: string
  client_config :: device_auth_config
  client_serverUrl :: "string option"

text \<open>\<^verbatim>\<open>getCitizenBaseUrl\<close>: the discovered server URL when it is set and not the empty
  string, else the configured base URL when not empty, else an error.\<close>

definition getCitizenBaseUrl :: "client \<Rightarrow> error + string" where
  "getCitizenBaseUrl c =
     (case client_serverUrl c of
        Some u \<Rightarrow>
          if u \<noteq> [] then Inr u
          else if client_baseUrl c \<noteq> [] then Inr (client_baseUrl c)
          else Inl NoServerUrl
      | None \<Rightarrow>
          if client_baseUrl c \<noteq> [] then Inr (client_baseUrl c)
          else Inl NoServerUrl)"

definition getHeaders :: "client \<Rightarrow> (string \<times> string) list" where
  "getHeaders c =
     [(''Authorization'', ''Bearer '' @ access_token (client_config c)),
      (''Content-Type'', ''application/json'')]"

text \<open>\<^verbatim>\<open>await response.json()\<close>.\<close>

definition response_json :: "response \<Rightarrow> error + json" where
  "response_json r = (case body_json r of None \<Rightarrow> Inl SyntaxError | Some j \<Rightarrow> Inr j)"

text \<open>The expression \<^verbatim>\<open>data.data || data\<close>, which ends \<^verbatim>\<open>get\<close>, \<^verbatim>\<open>post\<close>,
  \<^verbatim>\<open>uploadFile\<close> and \<^verbatim>\<open>delete\<close> and recurs in index.ts.\<close>

definition unwrap :: "json \<Rightarrow> error + json" where
  "unwrap data =
     (case js_prop (Some data) ''data'' of
        Inl e \<Rightarrow> Inl e
      | Inr None \<Rightarrow> Inr data
      | Inr (Some d) \<Rightarrow> if truthy d then Inr d else Inr data)"

text \<open>What \<^verbatim>\<open>get\<close> and \<^verbatim>\<open>post\<close> do with the outcome of their \<^verbatim>\<open>fetch\<close>.\<close>

definition api_result :: "fetch_result \<Rightarrow> error + json" where
  "api_result fr =
     (case fr of
        Rejected \<Rightarrow> Inl NetworkFailure
      | Responded r \<Rightarrow>
          if \<not> ok r then Inl (ApiRequestFailed (status r) (body_text r))
          else (case response_json r of Inl e \<Rightarrow> Inl e | Inr data \<Rightarrow> unwrap data))"

definition get_request :: "client \<Rightarrow> string \<Rightarrow> string \<Rightarrow> request" where
  "get_request c base path =
     \<lparr>req_method = GET, req_url = base @ path, req_query = [],
      req_headers = getHeaders c, req_body = NoBody\<rparr>"

definition client_get :: "'w io \<Rightarrow> client \<Rightarrow> string \<Rightarrow> 'w env \<Rightarrow> (error + json) \<times> 'w env" where
  "client_get io c path env =
     (case getCitizenBaseUrl c of
        Inl e \<Rightarrow> (Inl e, env)
      | Inr base \<Rightarrow>
          (let (fr, env') = do_fetch io (get_request c base path) env
           in (api_result fr, env')))"

definition post_request :: "client \<Rightarrow> string \<Rightarrow> string \<Rightarrow> json \<Rightarrow> request" where
  "post_request c base path body =
     \<lparr>req_method = POST, req_url = base @ path, req_query = [],
      req_headers = getHeaders c, req_body = JsonBody body\<rparr>"

definition client_post ::
  "'w io \<Rightarrow> client \<Rightarrow> string \<Rightarrow> json \<Rightarrow> 'w env \<Rightarrow> (error + json) \<times> 'w env" where
  "client_post io c path body env =
     (case getCitizenBaseUrl c of
        Inl e \<Rightarrow> (Inl e, env)
      | Inr base \<Rightarrow>
          (let (fr, env') = do_fetch io (post_request c base path body) env
           in (api_result fr, env')))"

section \<open>Device authorization client (auth/device-flow.ts)\<close>

definition maxAttempts :: nat where
  "maxAttempts = 180"

definition init_request :: "string \<Rightarrow> request" where
  "init_request apiUrl =
     \<lparr>req_method = POST, req_url = apiUrl @ ''/api/v1/auth/device/init'', req_query = [],
      req_headers = [(''Content-Type'', ''application/json'')],
      req_body = JsonBody (JObj [(''device_name'', JStr ''Claude Desktop MCP''),
                                 (''client_type'', JStr ''mcp_server'')])\<rparr>"

definition status_request :: "string \<Rightarrow> json option \<Rightarrow> request" where
  "status_request apiUrl device_code =
     \<lparr>req_method = GET, req_url = apiUrl @ ''/api/v1/auth/device/status'',
      req_query = [(''device_code'', device_code)], req_headers = [], req_body = NoBody\<rparr>"

text \<open>\<^verbatim>\<open>JSON.stringify({ device_code })\<close> leaves an undefined property out.\<close>

definition token_request :: "string \<Rightarrow> json option \<Rightarrow> request" where
  "token_request apiUrl device_code =
     \<lparr>req_method = POST, req_url = apiUrl @ ''/api/v1/auth/device/token'', req_query = [],
      req_headers = [(''Content-Type'', ''application/json'')],
      req_body = JsonBody (JObj (case device_code of None \<Rightarrow> []
                                 | Some d \<Rightarrow> [(''device_code'', d)]))\<rparr>"

text \<open>One reading of the status endpoint, as the loop body classifies it: a failure that
  ends \<^verbatim>\<open>authenticate\<close>, the terminal state \<^verbatim>\<open>authorized\<close>, or anything else.\<close>

datatype poll_outcome = PollFails error | PollAuthorized | PollPending

definition classify_poll :: "fetch_result \<Rightarrow> poll_outcome" where
  "classify_poll fr =
     (case fr of
        Rejected \<Rightarrow> PollFails NetworkFailure
      | Responded r \<Rightarrow>
          if \<not> ok r then PollFails StatusCheckFailed
          else (case response_json r of
                  Inl e \<Rightarrow> PollFails e
                | Inr statusData \<Rightarrow>
                    (case js_prop (Some statusData) ''data'' of
                       Inl e \<Rightarrow> PollFails e
                     | Inr d \<Rightarrow>
                         (case js_prop d ''status'' of
                            Inl e \<Rightarrow> PollFails e
                          | Inr s \<Rightarrow>
                              if s = Some (JStr ''authorized'') then PollAuthorized
                              else if s = Some (JStr ''expired'') then PollFails AuthorizationExpired
                              else if s = Some (JStr ''denied'') then PollFails AuthorizationDenied
                              else PollPending))))"

text \<open>
  The \<^verbatim>\<open>while (attempts < maxAttempts)\<close> loop. It yields the value of \<^verbatim>\<open>attempts\<close>
  at which it stops (by \<^verbatim>\<open>break\<close> or by its condition), or the error thrown in its
  body. The pause before each poll has no effect on the result and is not modelled.
\<close>

function pollLoop :: "'w io \<Rightarrow> request \<Rightarrow> nat \<Rightarrow> 'w env \<Rightarrow> (error + nat) \<times> 'w env" where
  "pollLoop io req attempts env =
     (if attempts < maxAttempts then
        (let (fr, env') = do_fetch io req env
         in case classify_poll fr of
              PollFails e \<Rightarrow> (Inl e, env')
            | PollAuthorized \<Rightarrow> (Inr attempts, log_line AuthorizedNotice env')
            | PollPending \<Rightarrow> pollLoop io req (attempts + 1) env')
      else (Inr attempts, env))"
  by pat_completeness auto
termination
  by (relation "measure (\<lambda>(io, req, attempts, env). maxAttempts - attempts)") auto

declare pollLoop.simps [simp del]

text \<open>Step 3 of \<^verbatim>\<open>authenticate\<close>: the loop from \<^verbatim>\<open>attempts = 0\<close>, then the check
  \<^verbatim>\<open>if (attempts >= maxAttempts) throw new Error('Authorization timeout')\<close>.\<close>

definition pollForAuthorization :: "'w io \<Rightarrow> request \<Rightarrow> 'w env \<Rightarrow> (error + unit) \<times> 'w env" where
  "pollForAuthorization io req env =
     (case pollLoop io req 0 env of
        (Inl e, env') \<Rightarrow> (Inl e, env')
      | (Inr attempts, env') \<Rightarrow>
          if attempts \<ge> maxAttempts then (Inl AuthorizationTimeout, env') else (Inr (), env'))"

text \<open>
  The bundle that step 4 builds from the token response, for a payload of the declared
  type \<^verbatim>\<open>DeviceAuthConfig\<close> (strings, a numeric lifetime, identity and organization
  objects). A failure is either an error the source throws, or \<open>OutsideModel\<close>: the
  payload does not have the type the source declares for it (\<^verbatim>\<open>DeviceAuthConfig\<close>,
  \<^verbatim>\<open>CitizenServer[]\<close>), and the source is not followed further on it.
\<close>

datatype failure = Thrown error | OutsideModel

definition str_field :: "json option \<Rightarrow> string \<Rightarrow> failure + string" where
  "str_field obj f =
     (case js_prop obj f of
        Inl e \<Rightarrow> Inl (Thrown e)
      | Inr (Some (JStr s)) \<Rightarrow> Inr s
      | Inr _ \<Rightarrow> Inl OutsideModel)"

definition decode_user :: "json option \<Rightarrow> failure + user_info" where
  "decode_user u =
     (case (str_field u ''id'', str_field u ''email'', str_field u ''name'') of
        (Inr i, Inr e, Inr n) \<Rightarrow> Inr \<lparr>user_id = i, user_email = e, user_name = n\<rparr>
      | _ \<Rightarrow> Inl OutsideModel)"

definition decode_organization :: "json option \<Rightarrow> failure + org_info" where
  "decode_organization u =
     (case (str_field u ''id'', str_field u ''name'', str_field u ''role'') of
        (Inr i, Inr n, Inr r) \<Rightarrow> Inr \<lparr>org_id = i, org_name = n, org_role = r\<rparr>
      | _ \<Rightarrow> Inl OutsideModel)"

definition build_config :: "json \<Rightarrow> int \<Rightarrow> failure + device_auth_config" where
  "build_config tokenData now =
     (case js_prop (Some tokenData) ''data'' of
        Inl e \<Rightarrow> Inl (Thrown e)
      | Inr d \<Rightarrow>
          (case js_prop d ''access_token'' of
             Inl e \<Rightarrow> Inl (Thrown e)
           | Inr _ \<Rightarrow>
               (case (str_field d ''access_token'', str_field d ''token_type'',
                      js_prop d ''expires_in'', js_prop d ''user'', js_prop d ''organization'') of
                  (Inr tok, Inr ty, Inr (Some (JNum n)), Inr u, Inr g) \<Rightarrow>
                    (case (decode_user u, decode_organization g) of
                       (Inr usr, Inr org) \<Rightarrow>
                         Inr \<lparr>access_token = tok, token_type = ty,
                              expires_at = of_int now + n * 1000,
                              user = usr, organization = org\<rparr>
                     | _ \<Rightarrow> Inl OutsideModel)
                | _ \<Rightarrow> Inl OutsideModel)))"

text \<open>\<^verbatim>\<open>authenticate\<close>, steps 1 to 5.\<close>

definition exchangeToken ::
  "'w io \<Rightarrow> string \<Rightarrow> json option \<Rightarrow> 'w env \<Rightarrow> (failure + device_auth_config) \<times> 'w env" where
  "exchangeToken io apiUrl device_code env =
     (let (fr, env1) = do_fetch io (token_request apiUrl device_code) env
      in case fr of
           Rejected \<Rightarrow> (Inl (Thrown NetworkFailure), env1)
         | Responded r \<Rightarrow>
             if \<not> ok r then (Inl (Thrown (TokenExchangeFailed (statusText r))), env1)
             else (case response_json r of
                     Inl e \<Rightarrow> (Inl (Thrown e), env1)
                   | Inr tokenData \<Rightarrow>
                       (case build_config tokenData (io_now io (world env1)) of
                          Inl (Thrown e) \<Rightarrow> (Inl (Thrown e), env1)
                        | Inl OutsideModel \<Rightarrow> (Inl OutsideModel, env1)
                        | Inr config \<Rightarrow>
                            (let (saved, w2) = io_save_config io config (world env1);
                                 env2 = env1\<lparr>world := w2\<rparr>
                             in if \<not> saved then (Inl (Thrown SaveConfigFailed), env2)
                                else (Inr config,
                                      log_line (AuthenticatedAs (user_name (user config))
                                                  (org_name (organization config))
                                                  (org_role (organization config))) env2)))))"

definition authenticate ::
  "'w io \<Rightarrow> string \<Rightarrow> 'w env \<Rightarrow> (failure + device_auth_config) \<times> 'w env" where
  "authenticate io apiUrl env =
     (let (fr, env1) = do_fetch io (init_request apiUrl) env
      in case fr of
           Rejected \<Rightarrow> (Inl (Thrown NetworkFailure), env1)
         | Responded r \<Rightarrow>
             if \<not> ok r then (Inl (Thrown (DeviceInitFailed (statusText r))), env1)
             else (case response_json r of
                     Inl e \<Rightarrow> (Inl (Thrown e), env1)
                   | Inr initData \<Rightarrow>
                       (case js_prop (Some initData) ''data'' of
                          Inl e \<Rightarrow> (Inl (Thrown e), env1)
                        | Inr d \<Rightarrow>
                            (case (js_prop d ''device_code'', js_prop d ''user_code'',
                                   js_prop d ''verification_url_complete'') of
                               (Inr device_code, Inr user_code, Inr url) \<Rightarrow>
                                 (let env2 = log_line (AuthorizationPrompt url user_code) env1
                                  in case pollForAuthorization io
                                            (status_request apiUrl device_code) env2 of
                                       (Inl e, env3) \<Rightarrow> (Inl (Thrown e), env3)
                                     | (Inr u, env3) \<Rightarrow>
                                         exchangeToken io apiUrl device_code env3)
                             | _ \<Rightarrow> (Inl (Thrown TypeError), env1)))))"

section \<open>Server and application routing cache (index.ts)\<close>

text \<open>\<^verbatim>\<open>CitizenServer\<close>: the program reads \<^verbatim>\<open>slug\<close> and \<^verbatim>\<open>domain\<close>; the other
  fields are kept as they were received.\<close>

record citizen_server =
  server_id :: "json option"
  slug :: string
  domain :: string
  organization_id :: "json option"
  created_at :: "json option"

text \<open>\<^verbatim>\<open>AppWithServer\<close>, as \<^verbatim>\<open>handleListApps\<close> fills it: the name is the value found
  in the listing, the status is \<^verbatim>\<open>undefined\<close> unless the entry is an object.\<close>

record app_with_server =
  app_name :: json
  app_status :: "json option"
  server_url :: string
  server_slug :: string

text \<open>
  A JavaScript \<^verbatim>\<open>Map\<close> whose keys come from parsed payloads, in insertion order.
  \<^verbatim>\<open>set\<close> on a key that is a string, number, boolean or \<^verbatim>\<open>null\<close> replaces the
  value of the entry with that key, in place, or appends a new entry; a key that is an
  array or an object is a fresh reference, equal to no key already there, so the entry is
  appended. \<^verbatim>\<open>get\<close> is only ever called with a string.
\<close>

fun is_primitive :: "json \<Rightarrow> bool" where
  "is_primitive (JArr xs) = False"
| "is_primitive (JObj kvs) = False"
| "is_primitive j = True"

definition map_set :: "(json \<times> 'v) list \<Rightarrow> json \<Rightarrow> 'v \<Rightarrow> (json \<times> 'v) list" where
  "map_set m k v = (if is_primitive k then AList.update k v m else m @ [(k, v)])"

definition map_get :: "(json \<times> 'v) list \<Rightarrow> string \<Rightarrow> 'v option" where
  "map_get m name = map_of m (JStr name)"

text \<open>The fields of \<^verbatim>\<open>CitizenMCPServer\<close> that hold its state.\<close>

record mcp_state =
  config :: "device_auth_config option"
  servers :: "citizen_server list"
  appServerMap :: "(json \<times> app_with_server) list"
  runServerMap :: "(json \<times> string) list"
  citizenAuthUrl :: string

text \<open>\<^verbatim>\<open>this.config!.access_token\<close>: a TypeError when there is no bundle.\<close>

definition bearer_headers :: "mcp_state \<Rightarrow> error + (string \<times> string) list" where
  "bearer_headers st =
     (case config st of
        None \<Rightarrow> Inl TypeError
      | Some c \<Rightarrow> Inr [(''Authorization'', ''Bearer '' @ access_token c)])"

definition server_base :: "citizen_server \<Rightarrow> string" where
  "server_base server = ''https://'' @ domain server"

subsection \<open>Server discovery\<close>

definition decode_server :: "json \<Rightarrow> citizen_server option" where
  "decode_server j =
     (case j of
        JObj kvs \<Rightarrow>
          (case (map_of kvs ''slug'', map_of kvs ''domain'') of
             (Some (JStr s), Some (JStr d)) \<Rightarrow>
               Some \<lparr>server_id = map_of kvs ''id'', slug = s, domain = d,
                     organization_id = map_of kvs ''organization_id'',
                     created_at = map_of kvs ''created_at''\<rparr>
           | _ \<Rightarrow> None)
      | _ \<Rightarrow> None)"

fun decode_servers :: "json list \<Rightarrow> citizen_server list option" where
  "decode_servers [] = Some []"
| "decode_servers (j # js) =
     (case (decode_server j, decode_servers js) of
        (Some s, Some ss) \<Rightarrow> Some (s # ss)
      | _ \<Rightarrow> None)"

text \<open>\<^verbatim>\<open>data.data || []\<close>, read at the declared type \<^verbatim>\<open>CitizenServer[]\<close>.\<close>

definition servers_of_body :: "json \<Rightarrow> failure + citizen_server list" where
  "servers_of_body data =
     (case js_prop (Some data) ''data'' of
        Inl e \<Rightarrow> Inl (Thrown e)
      | Inr None \<Rightarrow> Inr []
      | Inr (Some d) \<Rightarrow>
          if \<not> truthy d then Inr []
          else (case d of
                  JArr js \<Rightarrow> (case decode_servers js of None \<Rightarrow> Inl OutsideModel | Some ss \<Rightarrow> Inr ss)
                | _ \<Rightarrow> Inl OutsideModel))"

definition servers_request :: "string \<Rightarrow> device_auth_config \<Rightarrow> request" where
  "servers_request authUrl c =
     \<lparr>req_method = GET,
      req_url = authUrl @ ''/api/v1/servers?org_id='' @ org_id (organization c),
      req_query = [],
      req_headers = [(''Authorization'', ''Bearer '' @ access_token c)],
      req_body = NoBody\<rparr>"

definition fetchServers ::
  "'w io \<Rightarrow> mcp_state \<Rightarrow> 'w env \<Rightarrow> (failure + citizen_server list) \<times> 'w env" where
  "fetchServers io st env =
     (case config st of
        None \<Rightarrow> (Inl (Thrown TypeError), env)
      | Some c \<Rightarrow>
          (let (fr, env') = do_fetch io (servers_request (citizenAuthUrl st) c) env
           in case fr of
                Rejected \<Rightarrow> (Inl (Thrown NetworkFailure), env')
              | Responded r \<Rightarrow>
                  if \<not> ok r then (Inl (Thrown (FetchServersFailed (status r))), env')
                  else (case response_json r of
                          Inl e \<Rightarrow> (Inl (Thrown e), env')
                        | Inr data \<Rightarrow> (servers_of_body data, env'))))"

datatype list_servers_result = NoServersInOrganization | ServersFound "citizen_server list"

definition handleListServers ::
  "'w io \<Rightarrow> mcp_state \<Rightarrow> 'w env \<Rightarrow> (failure + list_servers_result) \<times> mcp_state \<times> 'w env" where
  "handleListServers io st env =
     (case fetchServers io st env of
        (Inl e, env') \<Rightarrow> (Inl e, st, env')
      | (Inr ss, env') \<Rightarrow>
          (let st' = st\<lparr>servers := ss\<rparr>
           in if ss = [] then (Inr NoServersInOrganization, st', env')
              else (Inr (ServersFound ss), st', env')))"

subsection \<open>Application listing\<close>

text \<open>\<^verbatim>\<open>typeof app === 'string' ? app : (app.app_name || app.name)\<close>.\<close>

definition appNameOf :: "json \<Rightarrow> error + json option" where
  "appNameOf app =
     (case app of
        JStr s \<Rightarrow> Inr (Some app)
      | _ \<Rightarrow>
          (case js_prop (Some app) ''app_name'' of
             Inl e \<Rightarrow> Inl e
           | Inr a \<Rightarrow>
               (case js_prop (Some app) ''name'' of
                  Inl e \<Rightarrow> Inl e
                | Inr n \<Rightarrow> Inr (js_or a n))))"

text \<open>\<^verbatim>\<open>typeof app === 'object' ? app.status : undefined\<close>, for an entry that is not
  \<^verbatim>\<open>null\<close>.\<close>

definition appStatusOf :: "json \<Rightarrow> json option" where
  "appStatusOf app = (case app of JObj kvs \<Rightarrow> map_of kvs ''status'' | _ \<Rightarrow> None)"

text \<open>The inner loop \<^verbatim>\<open>for (const app of appsList)\<close>: the map as it is when the loop ends
  or throws, with the error thrown if any.\<close>

fun mapApps ::
  "citizen_server \<Rightarrow> json list \<Rightarrow> (json \<times> app_with_server) list
     \<Rightarrow> error option \<times> (json \<times> app_with_server) list" where
  "mapApps server [] m = (None, m)"
| "mapApps server (app # rest) m =
     (case appNameOf app of
        Inl e \<Rightarrow> (Some e, m)
      | Inr None \<Rightarrow> mapApps server rest m
      | Inr (Some appName) \<Rightarrow>
          if truthy appName
          then mapApps server rest
                 (map_set m appName
                    \<lparr>app_name = appName, app_status = appStatusOf app,
                     server_url = server_base server, server_slug = slug server\<rparr>)
          else mapApps server rest m)"

text \<open>\<^verbatim>\<open>appsList.map(a => typeof a === 'string' ? a : (a.app_name || a.name))\<close>, which
  runs only after the loop above has read every entry without throwing.\<close>

definition appNames :: "json list \<Rightarrow> json option list" where
  "appNames appsList = map (\<lambda>a. case appNameOf a of Inl e \<Rightarrow> None | Inr n \<Rightarrow> n) appsList"

text \<open>\<^verbatim>\<open>const apps = data.data || data || []; Array.isArray(apps) ? apps : []\<close>.\<close>

definition appsListOf :: "json \<Rightarrow> error + json list" where
  "appsListOf data =
     (case js_prop (Some data) ''data'' of
        Inl e \<Rightarrow> Inl e
      | Inr d \<Rightarrow>
          (case js_or (js_or d (Some data)) (Some (JArr [])) of
             Some (JArr xs) \<Rightarrow> Inr xs
           | _ \<Rightarrow> Inr []))"

record app_group =
  group_slug :: string
  group_url :: string
  group_apps :: "json option list"

definition apps_request :: "citizen_server \<Rightarrow> (string \<times> string) list \<Rightarrow> request" where
  "apps_request server hdrs =
     \<lparr>req_method = GET, req_url = server_base server @ ''/api/v1/citizen/apps'',
      req_query = [], req_headers = hdrs, req_body = NoBody\<rparr>"

text \<open>One turn of \<^verbatim>\<open>for (const server of this.servers)\<close>: the \<^verbatim>\<open>try\<close> block and its
  \<^verbatim>\<open>catch\<close>. The result is the state, the group pushed to \<^verbatim>\<open>allApps\<close> if any, and
  the surroundings.\<close>

definition listAppsOn ::
  "'w io \<Rightarrow> citizen_server \<Rightarrow> mcp_state \<Rightarrow> 'w env \<Rightarrow> mcp_state \<times> app_group option \<times> 'w env" where
  "listAppsOn io server st env =
     (case bearer_headers st of
        Inl e \<Rightarrow> (st, None, log_line (ErrorFetchingApps (slug server) e) env)
      | Inr hdrs \<Rightarrow>
          (let (fr, env') = do_fetch io (apps_request server hdrs) env
           in case fr of
                Rejected \<Rightarrow>
                  (st, None, log_line (ErrorFetchingApps (slug server) NetworkFailure) env')
              | Responded r \<Rightarrow>
                  if ok r then
                    (case response_json r of
                       Inl e \<Rightarrow> (st, None, log_line (ErrorFetchingApps (slug server) e) env')
                     | Inr data \<Rightarrow>
                         (case appsListOf data of
                            Inl e \<Rightarrow> (st, None, log_line (ErrorFetchingApps (slug server) e) env')
                          | Inr appsList \<Rightarrow>
                              (case mapApps server appsList (appServerMap st) of
                                 (Some e, m) \<Rightarrow>
                                   (st\<lparr>appServerMap := m\<rparr>, None,
                                    log_line (ErrorFetchingApps (slug server) e) env')
                               | (None, m) \<Rightarrow>
                                   (st\<lparr>appServerMap := m\<rparr>,
                                    Some \<lparr>group_slug = slug server,
                                          group_url = server_base server,
                                          group_apps = appNames appsList\<rparr>,
                                    env'))))
                  else (st, None, log_line (FailedToFetchApps (slug server) (status r)) env')))"

fun listAppsLoop ::
  "'w io \<Rightarrow> citizen_server list \<Rightarrow> mcp_state \<Rightarrow> app_group list \<Rightarrow> 'w env
     \<Rightarrow> mcp_state \<times> app_group list \<times> 'w env" where
  "listAppsLoop io [] st allApps env = (st, allApps, env)"
| "listAppsLoop io (server # rest) st allApps env =
     (case listAppsOn io server st env of
        (st', None, env') \<Rightarrow> listAppsLoop io rest st' allApps env'
      | (st', Some g, env') \<Rightarrow> listAppsLoop io rest st' (allApps @ [g]) env')"

text \<open>\<^verbatim>\<open>allApps.reduce((sum, s) => sum + s.apps.length, 0)\<close>.\<close>

definition totalApps :: "app_group list \<Rightarrow> nat" where
  "totalApps allApps = foldl (\<lambda>sum s. sum + length (group_apps s)) 0 allApps"

datatype list_apps_result =
    NoCitizenServers
  | NoAppsFound
  | AppsFound nat "app_group list"

definition handleListApps ::
  "'w io \<Rightarrow> mcp_state \<Rightarrow> 'w env \<Rightarrow> (failure + list_apps_result) \<times> mcp_state \<times> 'w env" where
  "handleListApps io st env =
     (case (if servers st = []
            then (case fetchServers io st env of
                    (Inl e, env') \<Rightarrow> (Inl e, env')
                  | (Inr ss, env') \<Rightarrow> (Inr (st\<lparr>servers := ss\<rparr>), env'))
            else (Inr st, env)) of
        (Inl e, env1) \<Rightarrow> (Inl e, st, env1)
      | (Inr st1, env1) \<Rightarrow>
          if servers st1 = [] then (Inr NoCitizenServers, st1, env1)
          else
            (case listAppsLoop io (servers st1) (st1\<lparr>appServerMap := []\<rparr>) [] env1 of
               (st2, allApps, env2) \<Rightarrow>
                 if totalApps allApps = 0 then (Inr NoAppsFound, st2, env2)
                 else (Inr (AppsFound (totalApps allApps) allApps), st2, env2)))"

subsection \<open>Resolving the server of an application and of a run\<close>

definition getServerUrlForApp ::
  "'w io \<Rightarrow> string \<Rightarrow> mcp_state \<Rightarrow> 'w env \<Rightarrow> (failure + string) \<times> mcp_state \<times> 'w env" where
  "getServerUrlForApp io appName st env =
     (case map_get (appServerMap st) appName of
        Some appInfo \<Rightarrow> (Inr (server_url appInfo), st, env)
      | None \<Rightarrow>
          (case handleListApps io st env of
             (Inl e, st', env') \<Rightarrow> (Inl e, st', env')
           | (Inr listing, st', env') \<Rightarrow>
               (case map_get (appServerMap st') appName of
                  None \<Rightarrow> (Inl (Thrown (AppNotFound appName)), st', env')
                | Some appInfo \<Rightarrow> (Inr (server_url appInfo), st', env'))))"

definition run_request :: "string \<Rightarrow> string \<Rightarrow> (string \<times> string) list \<Rightarrow> request" where
  "run_request base runId hdrs =
     \<lparr>req_method = GET, req_url = base @ ''/api/v1/citizen/runs/'' @ runId,
      req_query = [], req_headers = hdrs, req_body = NoBody\<rparr>"

text \<open>The loop of \<^verbatim>\<open>getServerUrlForRun\<close>: each turn's \<^verbatim>\<open>try\<close> swallows whatever is
  thrown; the first 2xx answer is cached and returned; without one, the loop ends and
  the error is thrown.\<close>

fun probeServers ::
  "'w io \<Rightarrow> string \<Rightarrow> citizen_server list \<Rightarrow> mcp_state \<Rightarrow> 'w env
     \<Rightarrow> (failure + string) \<times> mcp_state \<times> 'w env" where
  "probeServers io runId [] st env = (Inl (Thrown (RunNotFound runId)), st, env)"
| "probeServers io runId (server # rest) st env =
     (case bearer_headers st of
        Inl e \<Rightarrow> probeServers io runId rest st env
      | Inr hdrs \<Rightarrow>
          (let (fr, env') = do_fetch io (run_request (server_base server) runId hdrs) env
           in case fr of
                Rejected \<Rightarrow> probeServers io runId rest st env'
              | Responded r \<Rightarrow>
                  if ok r
                  then (Inr (server_base server),
                        st\<lparr>runServerMap := map_set (runServerMap st) (JStr runId) (server_base server)\<rparr>,
                        env')
                  else probeServers io runId rest st env'))"

text \<open>\<^verbatim>\<open>if (cachedUrl)\<close>: a cached URL counts when it is not the empty string.\<close>

definition getServerUrlForRun ::
  "'w io \<Rightarrow> string \<Rightarrow> mcp_state \<Rightarrow> 'w env \<Rightarrow> (failure + string) \<times> mcp_state \<times> 'w env" where
  "getServerUrlForRun io runId st env =
     (case (case map_get (runServerMap st) runId of
              Some cachedUrl \<Rightarrow> if cachedUrl \<noteq> [] then Some cachedUrl else None
            | None \<Rightarrow> None) of
        Some cachedUrl \<Rightarrow> (Inr cachedUrl, st, env)
      | None \<Rightarrow>
          (if servers st = []
           then (case fetchServers io st env of
                   (Inl e, env') \<Rightarrow> (Inl e, st, env')
                 | (Inr ss, env') \<Rightarrow> probeServers io runId ss (st\<lparr>servers := ss\<rparr>) env')
           else probeServers io runId (servers st) st env))"

subsection \<open>Authentication\<close>

text \<open>\<^verbatim>\<open>handleAuthenticate\<close>: when \<^verbatim>\<open>authenticate\<close> throws, nothing of the state is
  touched; when it returns, the bundle is stored and the three caches are emptied.\<close>

definition handleAuthenticate ::
  "'w io \<Rightarrow> mcp_state \<Rightarrow> 'w env \<Rightarrow> (failure + device_auth_config) \<times> mcp_state \<times> 'w env" where
  "handleAuthenticate io st env =
     (case authenticate io (citizenAuthUrl st) env of
        (Inl e, env') \<Rightarrow> (Inl e, st, env')
      | (Inr c, env') \<Rightarrow>
          (Inr c, st\<lparr>config := Some c, servers := [], appServerMap := [], runServerMap := []\<rparr>, env'))"

subsection \<open>The handlers that talk to one server\<close>

text \<open>The pattern \<^verbatim>\<open>const response = await fetch(...); if (!response.ok) throw ...;
  const data = await response.json()\<close>, with the error that the handler throws on a
  non-2xx response.\<close>

definition fetchJson ::
  "'w io \<Rightarrow> request \<Rightarrow> (response \<Rightarrow> error) \<Rightarrow> 'w env \<Rightarrow> (failure + json) \<times> 'w env" where
  "fetchJson io req refusal env =
     (let (fr, env') = do_fetch io req env
      in case fr of
           Rejected \<Rightarrow> (Inl (Thrown NetworkFailure), env')
         | Responded r \<Rightarrow>
             if \<not> ok r then (Inl (Thrown (refusal r)), env')
             else (case response_json r of
                     Inl e \<Rightarrow> (Inl (Thrown e), env')
                   | Inr data \<Rightarrow> (Inr data, env')))"

text \<open>\<^verbatim>\<open>appServerInfo?.server_slug || 'unknown'\<close>.\<close>

definition slugOrUnknown :: "app_with_server option \<Rightarrow> string" where
  "slugOrUnknown info =
     (case info of
        None \<Rightarrow> ''unknown''
      | Some i \<Rightarrow> if server_slug i = [] then ''unknown'' else server_slug i)"

text \<open>\<^verbatim>\<open>args.git_branch || 'main'\<close>, \<^verbatim>\<open>args.builder || 'auto'\<close>.\<close>

definition orDefault :: "string option \<Rightarrow> string \<Rightarrow> string" where
  "orDefault v d = (case v of None \<Rightarrow> d | Some s \<Rightarrow> if s = [] then d else s)"

record run_report =
  report_id :: "json option"
  report_app :: "json option"
  report_status :: "json option"
  report_source :: "json option"
  report_steps :: "(json option \<times> json option) list option"

datatype tool_output =
    Instructions string
  | Authenticated device_auth_config
  | NotAuthenticatedYet
  | AuthStatus device_auth_config int
  | ServersListed list_servers_result
  | AppsListed list_apps_result
  | AppInfo string string json
  | DeploymentStarted string "json option" "json option" string string
  | LocalDeploymentStarted string "json option" "json option" "json option" "json option"
  | DeploymentStatus run_report
  | DeploymentRuns string "(json option \<times> json option \<times> json option) list"
  | NoDomainFound string
  | OpenedUrl string

definition app_request :: "string \<Rightarrow> string \<Rightarrow> (string \<times> string) list \<Rightarrow> request" where
  "app_request serverUrl appName hdrs =
     \<lparr>req_method = GET, req_url = serverUrl @ ''/api/v1/citizen/apps/'' @ appName,
      req_query = [], req_headers = hdrs, req_body = NoBody\<rparr>"

definition handleGetAppInfo ::
  "'w io \<Rightarrow> string \<Rightarrow> mcp_state \<Rightarrow> 'w env \<Rightarrow> (failure + tool_output) \<times> mcp_state \<times> 'w env" where
  "handleGetAppInfo io appName st env =
     (case getServerUrlForApp io appName st env of
        (Inl e, st1, env1) \<Rightarrow> (Inl e, st1, env1)
      | (Inr serverUrl, st1, env1) \<Rightarrow>
          (case bearer_headers st1 of
             Inl e \<Rightarrow> (Inl (Thrown e), st1, env1)
           | Inr hdrs \<Rightarrow>
               (case fetchJson io (app_request serverUrl appName hdrs)
                       (\<lambda>r. GetAppInfoFailed (status r)) env1 of
                  (Inl e, env2) \<Rightarrow> (Inl e, st1, env2)
                | (Inr data, env2) \<Rightarrow>
                    (case unwrap data of
                       Inl e \<Rightarrow> (Inl (Thrown e), st1, env2)
                     | Inr info \<Rightarrow>
                         (Inr (AppInfo appName
                                 (slugOrUnknown (map_get (appServerMap st1) appName)) info),
                          st1, env2)))))"

text \<open>\<^verbatim>\<open>if (result.run_id) { this.runServerMap.set(result.run_id, serverUrl); }\<close>.\<close>

definition rememberRun :: "json \<Rightarrow> string \<Rightarrow> mcp_state \<Rightarrow> error + mcp_state" where
  "rememberRun result serverUrl st =
     (case js_prop (Some result) ''run_id'' of
        Inl e \<Rightarrow> Inl e
      | Inr None \<Rightarrow> Inr st
      | Inr (Some run_id) \<Rightarrow>
          if truthy run_id
          then Inr (st\<lparr>runServerMap := map_set (runServerMap st) run_id serverUrl\<rparr>)
          else Inr st)"

record git_args =
  git_app_name :: string
  git_url :: string
  git_branch :: "string option"
  git_builder :: "string option"

definition deploy_request :: "string \<Rightarrow> git_args \<Rightarrow> (string \<times> string) list \<Rightarrow> request" where
  "deploy_request serverUrl args hdrs =
     \<lparr>req_method = POST,
      req_url = serverUrl @ ''/api/v1/citizen/apps/'' @ git_app_name args @ ''/deploy'',
      req_query = [],
      req_headers = hdrs @ [(''Content-Type'', ''application/json'')],
      req_body = JsonBody (JObj [(''git_url'', JStr (git_url args)),
                                 (''git_branch'', JStr (orDefault (git_branch args) ''main'')),
                                 (''builder'', JStr (orDefault (git_builder args) ''auto''))])\<rparr>"

definition handleDeployFromGit ::
  "'w io \<Rightarrow> git_args \<Rightarrow> mcp_state \<Rightarrow> 'w env \<Rightarrow> (failure + tool_output) \<times> mcp_state \<times> 'w env" where
  "handleDeployFromGit io args st env =
     (case getServerUrlForApp io (git_app_name args) st env of
        (Inl e, st1, env1) \<Rightarrow> (Inl e, st1, env1)
      | (Inr serverUrl, st1, env1) \<Rightarrow>
          (case bearer_headers st1 of
             Inl e \<Rightarrow> (Inl (Thrown e), st1, env1)
           | Inr hdrs \<Rightarrow>
               (case fetchJson io (deploy_request serverUrl args hdrs)
                       (\<lambda>r. DeploymentFailed (status r) (body_text r)) env1 of
                  (Inl e, env2) \<Rightarrow> (Inl e, st1, env2)
                | (Inr data, env2) \<Rightarrow>
                    (case unwrap data of
                       Inl e \<Rightarrow> (Inl (Thrown e), st1, env2)
                     | Inr result \<Rightarrow>
                         (case (rememberRun result serverUrl st1, js_prop (Some result) ''run_id'',
                                js_prop (Some result) ''status'') of
                            (Inr st2, Inr run_id, Inr run_status) \<Rightarrow>
                              (Inr (DeploymentStarted
                                      (slugOrUnknown (map_get (appServerMap st1) (git_app_name args)))
                                      run_id run_status (git_url args)
                                      (orDefault (git_branch args) ''main'')),
                               st2, env2)
                          | _ \<Rightarrow> (Inl (Thrown TypeError), st1, env2))))))"

record local_args =
  local_app_name :: string
  directory_path :: string
  local_builder :: "string option"

definition upload_request ::
  "string \<Rightarrow> local_args \<Rightarrow> (string \<times> string) list \<Rightarrow> int \<Rightarrow> nat list \<Rightarrow> request" where
  "upload_request serverUrl args hdrs now fileBuffer =
     \<lparr>req_method = POST,
      req_url = serverUrl @ ''/api/v1/citizen/apps/'' @ local_app_name args @ ''/upload'',
      req_query = [], req_headers = hdrs,
      req_body = FileUpload (local_app_name args) now fileBuffer\<rparr>"

text \<open>\<^verbatim>\<open>JSON.stringify({ filename: uploadResult.filename, builder: ... })\<close> leaves an
  undefined file name out.\<close>

definition deploy_local_request ::
  "string \<Rightarrow> local_args \<Rightarrow> (string \<times> string) list \<Rightarrow> json option \<Rightarrow> request" where
  "deploy_local_request serverUrl args hdrs filename =
     \<lparr>req_method = POST,
      req_url = serverUrl @ ''/api/v1/citizen/apps/'' @ local_app_name args @ ''/deploy-local'',
      req_query = [],
      req_headers = hdrs @ [(''Content-Type'', ''application/json'')],
      req_body = JsonBody (JObj ((case filename of None \<Rightarrow> [] | Some f \<Rightarrow> [(''filename'', f)])
                                 @ [(''builder'', JStr (orDefault (local_builder args) ''auto''))]))\<rparr>"

text \<open>The \<^verbatim>\<open>try\<close> block of \<^verbatim>\<open>handleDeployFromLocal\<close>: read the archive, upload it,
  start the deployment, remember the run.\<close>

definition uploadAndDeploy ::
  "'w io \<Rightarrow> local_args \<Rightarrow> string \<Rightarrow> string \<Rightarrow> mcp_state \<Rightarrow> 'w env
     \<Rightarrow> (failure + tool_output) \<times> mcp_state \<times> 'w env" where
  "uploadAndDeploy io args serverUrl tarPath st env =
     (case io_read_file io tarPath (world env) of
        None \<Rightarrow> (Inl (Thrown FileReadFailed), st, env)
      | Some fileBuffer \<Rightarrow>
          (case bearer_headers st of
             Inl e \<Rightarrow> (Inl (Thrown e), st, env)
           | Inr hdrs \<Rightarrow>
               (case fetchJson io
                       (upload_request serverUrl args hdrs (io_now io (world env)) fileBuffer)
                       (\<lambda>r. UploadFailed (status r) (body_text r)) env of
                  (Inl e, env1) \<Rightarrow> (Inl e, st, env1)
                | (Inr uploadData, env1) \<Rightarrow>
                    (case unwrap uploadData of
                       Inl e \<Rightarrow> (Inl (Thrown e), st, env1)
                     | Inr uploadResult \<Rightarrow>
                         (case (js_prop (Some uploadResult) ''filename'',
                                js_prop (Some uploadResult) ''size'') of
                            (Inr filename, Inr fileSize) \<Rightarrow>
                              (case fetchJson io (deploy_local_request serverUrl args hdrs filename)
                                      (\<lambda>r. DeployFailed (status r) (body_text r)) env1 of
                                 (Inl e, env2) \<Rightarrow> (Inl e, st, env2)
                               | (Inr deployData, env2) \<Rightarrow>
                                   (case unwrap deployData of
                                      Inl e \<Rightarrow> (Inl (Thrown e), st, env2)
                                    | Inr deployResult \<Rightarrow>
                                        (case (rememberRun deployResult serverUrl st,
                                               js_prop (Some deployResult) ''run_id'',
                                               js_prop (Some deployResult) ''status'') of
                                           (Inr st2, Inr run_id, Inr run_status) \<Rightarrow>
                                             (Inr (LocalDeploymentStarted
                                                     (slugOrUnknown
                                                        (map_get (appServerMap st) (local_app_name args)))
                                                     filename fileSize run_id run_status),
                                              st2, env2)
                                         | _ \<Rightarrow> (Inl (Thrown TypeError), st, env2))))
                          | _ \<Rightarrow> (Inl (Thrown TypeError), st, env1))))))"

text \<open>\<^verbatim>\<open>handleDeployFromLocal\<close>: the archive is built before the \<^verbatim>\<open>try\<close>; the
  \<^verbatim>\<open>finally\<close> removes it, and an error thrown there replaces the outcome of the block.\<close>

definition handleDeployFromLocal ::
  "'w io \<Rightarrow> local_args \<Rightarrow> mcp_state \<Rightarrow> 'w env \<Rightarrow> (failure + tool_output) \<times> mcp_state \<times> 'w env" where
  "handleDeployFromLocal io args st env =
     (case getServerUrlForApp io (local_app_name args) st env of
        (Inl e, st1, env1) \<Rightarrow> (Inl e, st1, env1)
      | (Inr serverUrl, st1, env1) \<Rightarrow>
          (case io_create_tar io (directory_path args) (world env1) of
             (None, w2) \<Rightarrow> (Inl (Thrown ArchiveFailed), st1, env1\<lparr>world := w2\<rparr>)
           | (Some tarPath, w2) \<Rightarrow>
               (case uploadAndDeploy io args serverUrl tarPath st1 (env1\<lparr>world := w2\<rparr>) of
                  (outcome, st3, env3) \<Rightarrow>
                    (case io_unlink io tarPath (world env3) of
                       (True, w4) \<Rightarrow> (outcome, st3, env3\<lparr>world := w4\<rparr>)
                     | (False, w4) \<Rightarrow> (Inl (Thrown UnlinkFailed), st3, env3\<lparr>world := w4\<rparr>)))))"

text \<open>One line of the steps text: \<^verbatim>\<open>step.step_name || step.name || step.StepName ||
  'unknown'\<close> and \<^verbatim>\<open>step.status || step.Status || 'pending'\<close>.\<close>

definition stepLine :: "json \<Rightarrow> error + (json option \<times> json option)" where
  "stepLine step =
     (case (js_prop (Some step) ''step_name'', js_prop (Some step) ''name'',
            js_prop (Some step) ''StepName'', js_prop (Some step) ''status'',
            js_prop (Some step) ''Status'') of
        (Inr a, Inr b, Inr c, Inr s, Inr t) \<Rightarrow>
          Inr (js_or (js_or (js_or a b) c) (Some (JStr ''unknown'')),
               js_or (js_or s t) (Some (JStr ''pending'')))
      | _ \<Rightarrow> Inl TypeError)"

fun stepLines :: "json list \<Rightarrow> error + (json option \<times> json option) list" where
  "stepLines [] = Inr []"
| "stepLines (step # rest) =
     (case stepLine step of
        Inl e \<Rightarrow> Inl e
      | Inr l \<Rightarrow> (case stepLines rest of Inl e \<Rightarrow> Inl e | Inr ls \<Rightarrow> Inr (l # ls)))"

definition runReport :: "json \<Rightarrow> error + run_report" where
  "runReport run =
     (case (js_prop (Some run) ''steps'', js_prop (Some run) ''run_id'', js_prop (Some run) ''id'',
            js_prop (Some run) ''app_name'', js_prop (Some run) ''status'',
            js_prop (Some run) ''git_url'', js_prop (Some run) ''source'',
            js_prop (Some run) ''GitURL'') of
        (Inr steps, Inr run_id, Inr ident, Inr app, Inr st, Inr g, Inr src, Inr g2) \<Rightarrow>
          (case (case steps of
                   Some (JArr (x # xs)) \<Rightarrow>
                     (case stepLines (x # xs) of Inl e \<Rightarrow> Inl e | Inr ls \<Rightarrow> Inr (Some ls))
                 | _ \<Rightarrow> Inr None) of
             Inl e \<Rightarrow> Inl e
           | Inr lines \<Rightarrow>
               Inr \<lparr>report_id = js_or run_id ident, report_app = app, report_status = st,
                    report_source = js_or (js_or (js_or g src) g2) (Some (JStr ''local upload'')),
                    report_steps = lines\<rparr>)
      | _ \<Rightarrow> Inl TypeError)"

definition handleGetDeploymentStatus ::
  "'w io \<Rightarrow> string \<Rightarrow> mcp_state \<Rightarrow> 'w env \<Rightarrow> (failure + tool_output) \<times> mcp_state \<times> 'w env" where
  "handleGetDeploymentStatus io runId st env =
     (case getServerUrlForRun io runId st env of
        (Inl e, st1, env1) \<Rightarrow> (Inl e, st1, env1)
      | (Inr serverUrl, st1, env1) \<Rightarrow>
          (case bearer_headers st1 of
             Inl e \<Rightarrow> (Inl (Thrown e), st1, env1)
           | Inr hdrs \<Rightarrow>
               (case fetchJson io (run_request serverUrl runId hdrs)
                       (\<lambda>r. GetStatusFailed (status r)) env1 of
                  (Inl e, env2) \<Rightarrow> (Inl e, st1, env2)
                | (Inr data, env2) \<Rightarrow>
                    (case unwrap data of
                       Inl e \<Rightarrow> (Inl (Thrown e), st1, env2)
                     | Inr run \<Rightarrow>
                         (case runReport run of
                            Inl e \<Rightarrow> (Inl (Thrown e), st1, log_line (DebugRun (Some run)) env2)
                          | Inr report \<Rightarrow>
                              (Inr (DeploymentStatus report), st1,
                               log_line (DebugRun (Some run)) env2))))))"

text \<open>The loop \<^verbatim>\<open>for (const run of runs)\<close> of \<^verbatim>\<open>handleListDeploymentRuns\<close> over an
  array: the state as it is when the loop ends or throws.\<close>

fun rememberRuns :: "json list \<Rightarrow> string \<Rightarrow> mcp_state \<Rightarrow> error option \<times> mcp_state" where
  "rememberRuns [] serverUrl st = (None, st)"
| "rememberRuns (run # rest) serverUrl st =
     (case rememberRun run serverUrl st of
        Inl e \<Rightarrow> (Some e, st)
      | Inr st' \<Rightarrow> rememberRuns rest serverUrl st')"

definition runLine :: "json \<Rightarrow> json option \<times> json option \<times> json option" where
  "runLine run =
     (case (js_prop (Some run) ''run_id'', js_prop (Some run) ''status'',
            js_prop (Some run) ''created_at'') of
        (Inr a, Inr b, Inr c) \<Rightarrow> (a, b, c)
      | _ \<Rightarrow> (None, None, None))"

definition runs_request :: "string \<Rightarrow> string \<Rightarrow> (string \<times> string) list \<Rightarrow> request" where
  "runs_request serverUrl appName hdrs =
     \<lparr>req_method = GET,
      req_url = serverUrl @ ''/api/v1/citizen/apps/'' @ appName @ ''/runs'',
      req_query = [], req_headers = hdrs, req_body = NoBody\<rparr>"

text \<open>
  \<^verbatim>\<open>const runs = data.data || data || []\<close> is then iterated and mapped. An array is
  walked entry by entry. A string is walked character by character, none of which has a
  \<^verbatim>\<open>run_id\<close>, and has no \<^verbatim>\<open>map\<close>; a number, \<^verbatim>\<open>true\<close> or an object cannot be
  iterated: a TypeError either way.
\<close>

definition handleListDeploymentRuns ::
  "'w io \<Rightarrow> string \<Rightarrow> mcp_state \<Rightarrow> 'w env \<Rightarrow> (failure + tool_output) \<times> mcp_state \<times> 'w env" where
  "handleListDeploymentRuns io appName st env =
     (case getServerUrlForApp io appName st env of
        (Inl e, st1, env1) \<Rightarrow> (Inl e, st1, env1)
      | (Inr serverUrl, st1, env1) \<Rightarrow>
          (case bearer_headers st1 of
             Inl e \<Rightarrow> (Inl (Thrown e), st1, env1)
           | Inr hdrs \<Rightarrow>
               (case fetchJson io (runs_request serverUrl appName hdrs)
                       (\<lambda>r. ListRunsFailed (status r)) env1 of
                  (Inl e, env2) \<Rightarrow> (Inl e, st1, env2)
                | (Inr data, env2) \<Rightarrow>
                    (case js_prop (Some data) ''data'' of
                       Inl e \<Rightarrow> (Inl (Thrown e), st1, env2)
                     | Inr d \<Rightarrow>
                         (case js_or (js_or d (Some data)) (Some (JArr [])) of
                            Some (JArr runs) \<Rightarrow>
                              (case rememberRuns runs serverUrl st1 of
                                 (Some e, st2) \<Rightarrow> (Inl (Thrown e), st2, env2)
                               | (None, st2) \<Rightarrow>
                                   (Inr (DeploymentRuns appName (map runLine runs)), st2, env2))
                          | _ \<Rightarrow> (Inl (Thrown TypeError), st1, env2))))))"

text \<open>
  \<^verbatim>\<open>handleOpenAppUrl\<close>. The first domain is interpolated into the URL: the model
  follows a list of domains that starts with a string, and a string (whose first
  character is then taken).
\<close>

definition handleOpenAppUrl ::
  "'w io \<Rightarrow> string \<Rightarrow> mcp_state \<Rightarrow> 'w env \<Rightarrow> (failure + tool_output) \<times> mcp_state \<times> 'w env" where
  "handleOpenAppUrl io appName st env =
     (case getServerUrlForApp io appName st env of
        (Inl e, st1, env1) \<Rightarrow> (Inl e, st1, env1)
      | (Inr serverUrl, st1, env1) \<Rightarrow>
          (case bearer_headers st1 of
             Inl e \<Rightarrow> (Inl (Thrown e), st1, env1)
           | Inr hdrs \<Rightarrow>
               (case fetchJson io (app_request serverUrl appName hdrs)
                       (\<lambda>r. GetAppInfoFailed (status r)) env1 of
                  (Inl e, env2) \<Rightarrow> (Inl e, st1, env2)
                | (Inr data, env2) \<Rightarrow>
                    (case unwrap data of
                       Inl e \<Rightarrow> (Inl (Thrown e), st1, env2)
                     | Inr info \<Rightarrow>
                         (case js_prop (Some info) ''domains'' of
                            Inl e \<Rightarrow> (Inl (Thrown e), st1, env2)
                          | Inr ds \<Rightarrow>
                              (case (case js_or ds (Some (JArr [])) of
                                       Some (JArr []) \<Rightarrow> Inr None
                                     | Some (JArr (JStr d # rest)) \<Rightarrow> Inr (Some (''https://'' @ d))
                                     | Some (JStr (ch # rest)) \<Rightarrow> Inr (Some (''https://'' @ [ch]))
                                     | _ \<Rightarrow> Inl OutsideModel) of
                                 Inl e \<Rightarrow> (Inl e, st1, env2)
                               | Inr None \<Rightarrow> (Inr (NoDomainFound appName), st1, env2)
                               | Inr (Some url) \<Rightarrow>
                                   (case io_open io url (world env2) of
                                      (True, w3) \<Rightarrow> (Inr (OpenedUrl url), st1, env2\<lparr>world := w3\<rparr>)
                                    | (False, w3) \<Rightarrow>
                                        (Inl (Thrown OpenFailed), st1, env2\<lparr>world := w3\<rparr>))))))))"

subsection \<open>The tool dispatcher\<close>

definition handleGetInstructions ::
  "'w io \<Rightarrow> mcp_state \<Rightarrow> 'w env \<Rightarrow> (failure + tool_output) \<times> mcp_state \<times> 'w env" where
  "handleGetInstructions io st env =
     (case io_instructions io (world env) of
        None \<Rightarrow> (Inl (Thrown FileReadFailed), st, env)
      | Some text \<Rightarrow> (Inr (Instructions text), st, env))"

text \<open>\<^verbatim>\<open>handleCheckAuthStatus\<close> stores what \<^verbatim>\<open>loadConfig\<close> returns, a missing bundle
  too; the days left are \<^verbatim>\<open>Math.floor((expires_at - Date.now()) / 1000 / 60 / 60 / 24)\<close>.\<close>

definition handleCheckAuthStatus ::
  "'w io \<Rightarrow> mcp_state \<Rightarrow> 'w env \<Rightarrow> (failure + tool_output) \<times> mcp_state \<times> 'w env" where
  "handleCheckAuthStatus io st env =
     (case loadConfig io env of
        (None, env') \<Rightarrow> (Inr NotAuthenticatedYet, st\<lparr>config := None\<rparr>, env')
      | (Some c, env') \<Rightarrow>
          (Inr (AuthStatus c
                  \<lfloor>(expires_at c - of_int (io_now io (world env'))) / 1000 / 60 / 60 / 24\<rfloor>),
           st\<lparr>config := Some c\<rparr>, env'))"

definition ensureAuth ::
  "'w io \<Rightarrow> mcp_state \<Rightarrow> 'w env \<Rightarrow> (failure + unit) \<times> mcp_state \<times> 'w env" where
  "ensureAuth io st env =
     (case config st of
        Some c \<Rightarrow> (Inr (), st, env)
      | None \<Rightarrow>
          (case loadConfig io env of
             (None, env') \<Rightarrow> (Inl (Thrown NotAuthenticated), st\<lparr>config := None\<rparr>, env')
           | (Some c, env') \<Rightarrow> (Inr (), st\<lparr>config := Some c\<rparr>, env')))"

datatype tool_call =
    GetInstructions
  | Authenticate
  | CheckAuthStatus
  | ListServers
  | ListApps
  | GetAppInfo string
  | DeployFromGit git_args
  | DeployFromLocal local_args
  | GetDeploymentStatus string
  | ListDeploymentRuns string
  | OpenAppUrl string
  | OtherTool string

text \<open>\<^verbatim>\<open>await this.ensureAuth(); return await this.handle...(...)\<close>.\<close>

definition authorized ::
  "'w io \<Rightarrow> (mcp_state \<Rightarrow> 'w env \<Rightarrow> (failure + tool_output) \<times> mcp_state \<times> 'w env)
     \<Rightarrow> mcp_state \<Rightarrow> 'w env \<Rightarrow> (failure + tool_output) \<times> mcp_state \<times> 'w env" where
  "authorized io handler st env =
     (case ensureAuth io st env of
        (Inl e, st', env') \<Rightarrow> (Inl e, st', env')
      | (Inr u, st', env') \<Rightarrow> handler st' env')"

text \<open>The \<^verbatim>\<open>switch\<close> of \<^verbatim>\<open>handleToolCall\<close>.\<close>

definition dispatch ::
  "'w io \<Rightarrow> tool_call \<Rightarrow> mcp_state \<Rightarrow> 'w env \<Rightarrow> (failure + tool_output) \<times> mcp_state \<times> 'w env" where
  "dispatch io call st env =
     (case call of
        GetInstructions \<Rightarrow> handleGetInstructions io st env
      | Authenticate \<Rightarrow>
          (case handleAuthenticate io st env of
             (Inl e, st', env') \<Rightarrow> (Inl e, st', env')
           | (Inr c, st', env') \<Rightarrow> (Inr (Authenticated c), st', env'))
      | CheckAuthStatus \<Rightarrow> handleCheckAuthStatus io st env
      | ListServers \<Rightarrow>
          authorized io
            (\<lambda>s e. case handleListServers io s e of
                      (Inl x, s', e') \<Rightarrow> (Inl x, s', e')
                    | (Inr r, s', e') \<Rightarrow> (Inr (ServersListed r), s', e')) st env
      | ListApps \<Rightarrow>
          authorized io
            (\<lambda>s e. case handleListApps io s e of
                      (Inl x, s', e') \<Rightarrow> (Inl x, s', e')
                    | (Inr r, s', e') \<Rightarrow> (Inr (AppsListed r), s', e')) st env
      | GetAppInfo app \<Rightarrow> authorized io (handleGetAppInfo io app) st env
      | DeployFromGit args \<Rightarrow> authorized io (handleDeployFromGit io args) st env
      | DeployFromLocal args \<Rightarrow> authorized io (handleDeployFromLocal io args) st env
      | GetDeploymentStatus run \<Rightarrow> authorized io (handleGetDeploymentStatus io run) st env
      | ListDeploymentRuns app \<Rightarrow> authorized io (handleListDeploymentRuns io app) st env
      | OpenAppUrl app \<Rightarrow> authorized io (handleOpenAppUrl io app) st env
      | OtherTool name \<Rightarrow> (Inl (Thrown (UnknownTool name)), st, env))"

text \<open>What the host receives: the content of a result, or the message of whatever was
  thrown, flagged as an error by the \<^verbatim>\<open>catch\<close> of \<^verbatim>\<open>handleToolCall\<close>.\<close>

datatype call_result = Content tool_output | IsError error | Unfollowed

definition handleToolCall ::
  "'w io \<Rightarrow> tool_call \<Rightarrow> mcp_state \<Rightarrow> 'w env \<Rightarrow> call_result \<times> mcp_state \<times> 'w env" where
  "handleToolCall io call st env =
     (case dispatch io call st env of
        (Inr out, st', env') \<Rightarrow> (Content out, st', env')
      | (Inl (Thrown e), st', env') \<Rightarrow> (IsError e, st', env')
      | (Inl OutsideModel, st', env') \<Rightarrow> (Unfollowed, st', env'))"

section \<open>Notions used to state the properties\<close>

text \<open>The \<^verbatim>\<open>data\<close> field of a JSON body: the own property of an
  object; no other JSON value has one.\<close>

definition data_field :: "json \<Rightarrow> json option" where
  "data_field b = (case b of JObj kvs \<Rightarrow> map_of kvs ''data'' | _ \<Rightarrow> None)"

text \<open>A call answered with a 2xx status; a network error and any other status are the
  failures that the loops over the servers swallow.\<close>

definition responded_2xx :: "fetch_result \<Rightarrow> bool" where
  "responded_2xx fr = (case fr of Rejected \<Rightarrow> False | Responded r \<Rightarrow> ok r)"

text \<open>The discovery call: a GET of the identity provider's server list for the
  organization of the bundle, with the bundle's bearer token.\<close>

definition discovery_get :: "string \<Rightarrow> device_auth_config \<Rightarrow> request" where
  "discovery_get authUrl c =
     \<lparr>req_method = GET,
      req_url = authUrl @ ''/api/v1/servers?org_id='' @ org_id (organization c),
      req_query = [],
      req_headers = [(''Authorization'', ''Bearer '' @ access_token c)],
      req_body = NoBody\<rparr>"

text \<open>What an answer to the discovery call amounts to: the servers it lists, or the
  failure of the call.\<close>

definition discovery_answer :: "fetch_result \<Rightarrow> failure + citizen_server list" where
  "discovery_answer fr =
     (case fr of
        Rejected \<Rightarrow> Inl (Thrown NetworkFailure)
      | Responded r \<Rightarrow>
          if \<not> ok r then Inl (Thrown (FetchServersFailed (status r)))
          else (case body_json r of
                  None \<Rightarrow> Inl (Thrown SyntaxError)
                | Some data \<Rightarrow> servers_of_body data))"

text \<open>
  Ensuring that the server set is populated, given the answer \<open>fr\<close> that the discovery
  call would receive: a non-empty server set is taken as it is and nothing is sent; for
  an empty one the discovery call is made, so its exchange is added to the log and the
  known servers are those of its answer.
\<close>

definition known_after_refresh :: "mcp_state \<Rightarrow> fetch_result \<Rightarrow> failure + citizen_server list" where
  "known_after_refresh st fr = (if servers st = [] then discovery_answer fr else Inr (servers st))"

definition log_after_refresh ::
  "mcp_state \<Rightarrow> device_auth_config \<Rightarrow> fetch_result \<Rightarrow> (request \<times> fetch_result) list
     \<Rightarrow> (request \<times> fetch_result) list" where
  "log_after_refresh st c fr exs =
     (if servers st = [] then exs @ [(discovery_get (citizenAuthUrl st) c, fr)] else exs)"

text \<open>The run-status GET sent to a server, and those sent to the given servers, in order,
  with their answers.\<close>

definition probe_get :: "string \<Rightarrow> (string \<times> string) list \<Rightarrow> citizen_server \<Rightarrow> request" where
  "probe_get runId hdrs s =
     \<lparr>req_method = GET,
      req_url = ''https://'' @ domain s @ ''/api/v1/citizen/runs/'' @ runId,
      req_query = [], req_headers = hdrs, req_body = NoBody\<rparr>"

definition probe_trace ::
  "string \<Rightarrow> (string \<times> string) list \<Rightarrow> citizen_server list \<Rightarrow> fetch_result list
     \<Rightarrow> (request \<times> fetch_result) list" where
  "probe_trace runId hdrs srvs frs = zip (map (probe_get runId hdrs) srvs) frs"

text \<open>The names that the answer to an app-listing call carries: those of the entries of
  a 2xx JSON answer's list, as \<open>appNameOf\<close> reads them.\<close>

definition listed_names :: "fetch_result \<Rightarrow> json list" where
  "listed_names fr =
     (case fr of
        Rejected \<Rightarrow> []
      | Responded r \<Rightarrow>
          if ok r then
            (case body_json r of
               None \<Rightarrow> []
             | Some data \<Rightarrow>
                 (case appsListOf data of
                    Inl e \<Rightarrow> []
                  | Inr xs \<Rightarrow>
                      List.map_filter (\<lambda>a. case appNameOf a of Inl e \<Rightarrow> None | Inr n \<Rightarrow> n) xs))
          else [])"

text \<open>An app-listing call succeeds when it is answered 2xx with a JSON body that yields a
  list of apps none of which is \<^verbatim>\<open>null\<close>; the list is then its listing.\<close>

definition listing_of :: "fetch_result \<Rightarrow> json list option" where
  "listing_of fr =
     (case fr of
        Rejected \<Rightarrow> None
      | Responded r \<Rightarrow>
          if ok r then
            (case body_json r of
               None \<Rightarrow> None
             | Some data \<Rightarrow>
                 (case appsListOf data of
                    Inl e \<Rightarrow> None
                  | Inr xs \<Rightarrow> if JNull \<in> set xs then None else Some xs))
          else None)"

text \<open>The app-to-server map that the listings of the succeeding servers alone give, taken
  in the order of the servers: a server whose call did not succeed adds nothing.\<close>

fun expected_map ::
  "(citizen_server \<times> fetch_result) list \<Rightarrow> (json \<times> app_with_server) list
     \<Rightarrow> (json \<times> app_with_server) list" where
  "expected_map [] m = m"
| "expected_map ((server, fr) # rest) m =
     (case listing_of fr of
        None \<Rightarrow> expected_map rest m
      | Some xs \<Rightarrow> expected_map rest (snd (mapApps server xs m)))"

text \<open>The number of apps a server's answer lists: none when its call did not succeed.\<close>

definition listed_count :: "fetch_result \<Rightarrow> nat" where
  "listed_count fr = (case listing_of fr of None \<Rightarrow> 0 | Some xs \<Rightarrow> length xs)"

text \<open>The count that a result of \<open>handleListApps\<close> reports; the "no apps" result is
  given when the count is zero.\<close>

definition reported_total :: "failure + list_apps_result \<Rightarrow> nat option" where
  "reported_total res =
     (case res of
        Inr (AppsFound n groups) \<Rightarrow> Some n
      | Inr NoAppsFound \<Rightarrow> Some 0
      | _ \<Rightarrow> None)"

text \<open>The status of an answer, when there is one.\<close>

definition status_of :: "fetch_result \<Rightarrow> nat option" where
  "status_of fr = (case fr of Rejected \<Rightarrow> None | Responded r \<Rightarrow> Some (status r))"

text \<open>The run-to-server map \<open>m'\<close> keeps the entries of \<open>m\<close>: the keys of \<open>m\<close> are the
  first keys of \<open>m'\<close>, in the same order (entries are added at the end or have their
  value replaced in place, never removed).\<close>

definition runs_kept :: "(json \<times> string) list \<Rightarrow> (json \<times> string) list \<Rightarrow> bool" where
  "runs_kept m m' = (take (length m) (map fst m') = map fst m)"

text \<open>The run id that a deployment result or a run entry carries, when it is truthy.\<close>

definition reported_id :: "json \<Rightarrow> json option" where
  "reported_id j =
     (case js_prop (Some j) ''run_id'' of
        Inr (Some rid) \<Rightarrow> if truthy rid then Some rid else None
      | _ \<Rightarrow> None)"

text \<open>The run ids that the answer to a deployment request reports: that of the unwrapped
  body of a 2xx JSON answer, if it has one.\<close>

definition reported_run :: "fetch_result \<Rightarrow> json list" where
  "reported_run fr =
     (case fr of
        Rejected \<Rightarrow> []
      | Responded r \<Rightarrow>
          if ok r then
            (case body_json r of
               None \<Rightarrow> []
             | Some data \<Rightarrow>
                 (case unwrap data of
                    Inl e \<Rightarrow> []
                  | Inr result \<Rightarrow> (case reported_id result of None \<Rightarrow> [] | Some rid \<Rightarrow> [rid])))
          else [])"

text \<open>The run ids of the entries of a list of runs, up to its first \<^verbatim>\<open>null\<close> entry
  (at which the loop over the runs throws).\<close>

fun reported_ids :: "json list \<Rightarrow> json list" where
  "reported_ids [] = []"
| "reported_ids (run # rest) =
     (if run = JNull then []
      else (case reported_id run of
              None \<Rightarrow> reported_ids rest
            | Some rid \<Rightarrow> rid # reported_ids rest))"

text \<open>The run ids that the answer to a run-listing request reports: those of the list
  that \<^verbatim>\<open>data.data || data || []\<close> gives for a 2xx JSON answer, none when it is not
  an array.\<close>

definition listed_runs :: "fetch_result \<Rightarrow> json list" where
  "listed_runs fr =
     (case fr of
        Rejected \<Rightarrow> []
      | Responded r \<Rightarrow>
          if ok r then
            (case body_json r of
               None \<Rightarrow> []
             | Some data \<Rightarrow>
                 (case js_prop (Some data) ''data'' of
                    Inl e \<Rightarrow> []
                  | Inr d \<Rightarrow>
                      (case js_or (js_or d (Some data)) (Some (JArr [])) of
                         Some (JArr runs) \<Rightarrow> reported_ids runs
                       | _ \<Rightarrow> [])))
          else [])"

text \<open>The run-to-server map with each of the given run ids, in turn, set to a URL.\<close>

definition set_runs :: "(json \<times> string) list \<Rightarrow> json list \<Rightarrow> string \<Rightarrow> (json \<times> string) list" where
  "set_runs m ids url = foldl (\<lambda>m rid. map_set m rid url) m ids"

text \<open>The server URL cached for an application.\<close>

definition app_server_url :: "mcp_state \<Rightarrow> string \<Rightarrow> string option" where
  "app_server_url st app = map_option server_url (map_get (appServerMap st) app)"

text \<open>
  A request to the server of an application has been answered and recorded: the last
  exchange of the log is the request with the given method to the given path of the
  server whose URL is cached for the application, and the run-to-server map is the old
  map \<open>m\<close> with the run ids that the answer reports (read from it by \<open>ids\<close>) set to that
  server's URL. All other entries are as they were.
\<close>

definition recorded ::
  "http_method \<Rightarrow> string \<Rightarrow> string \<Rightarrow> (fetch_result \<Rightarrow> json list) \<Rightarrow> (json \<times> string) list
     \<Rightarrow> mcp_state \<Rightarrow> (request \<times> fetch_result) list \<Rightarrow> bool" where
  "recorded method app suffix ids m st' exs =
     (case app_server_url st' app of
        None \<Rightarrow> False
      | Some url \<Rightarrow>
          exs \<noteq> []
          \<and> req_method (fst (last exs)) = method
          \<and> req_url (fst (last exs)) = url @ ''/api/v1/citizen/apps/'' @ app @ suffix
          \<and> runServerMap st' = set_runs m (ids (snd (last exs))) url)"

text \<open>Every server URL held in the two maps is a non-empty string. This holds when the
  maps are empty, and every tool call keeps it.\<close>

definition urls_nonempty :: "mcp_state \<Rightarrow> bool" where
  "urls_nonempty st =
     ((\<forall>u\<in>snd ` set (runServerMap st). u \<noteq> [])
      \<and> (\<forall>a\<in>snd ` set (appServerMap st). server_url a \<noteq> []))"

section \<open>Example data\<close>

definition example_config :: device_auth_config where
  "example_config =
     \<lparr>access_token = ''tok'', token_type = ''Bearer'', expires_at = 1000,
      user = \<lparr>user_id = ''u1'', user_email = ''a@example.com'', user_name = ''Ada''\<rparr>,
      organization = \<lparr>org_id = ''o1'', org_name = ''Org'', org_role = ''member''\<rparr>\<rparr>"

text \<open>A world that is only a clock reading, with a stored bundle and no network.\<close>

definition clock_io :: "config_file \<Rightarrow> int io" where
  "clock_io f =
     \<lparr>io_fetch = (\<lambda>req w. (Rejected, w)),
      io_now = (\<lambda>w. w),
      io_config_file = (\<lambda>w. f),
      io_save_config = (\<lambda>c w. (False, w)),
      io_create_tar = (\<lambda>d w. (None, w)),
      io_read_file = (\<lambda>p w. None),
      io_unlink = (\<lambda>p w. (False, w)),
      io_instructions = (\<lambda>w. None),
      io_open = (\<lambda>u w. (False, w))\<rparr>"

definition clock_env :: "int \<Rightarrow> int env" where
  "clock_env t = \<lparr>world = t, exchanges = [], console = []\<rparr>"

text \<open>A world that counts the requests made so far and answers each from a script.\<close>

definition script_io :: "(nat \<Rightarrow> request \<Rightarrow> fetch_result) \<Rightarrow> nat io" where
  "script_io f =
     \<lparr>io_fetch = (\<lambda>req n. (f n req, Suc n)),
      io_now = (\<lambda>n. 5000),
      io_config_file = (\<lambda>n. Missing),
      io_save_config = (\<lambda>c n. (True, n)),
      io_create_tar = (\<lambda>d n. (Some ''/tmp/deploy-5000.tar.gz'', n)),
      io_read_file = (\<lambda>p n. Some []),
      io_unlink = (\<lambda>p n. (True, n)),
      io_instructions = (\<lambda>n. Some ''{}''),
      io_open = (\<lambda>u n. (True, n))\<rparr>"

definition start_env :: "nat env" where
  "start_env = \<lparr>world = 0, exchanges = [], console = []\<rparr>"

definition json_response :: "nat \<Rightarrow> string \<Rightarrow> json \<Rightarrow> fetch_result" where
  "json_response st txt j =
     Responded \<lparr>status = st, statusText = '''', body_text = txt, body_json = Some j\<rparr>"

definition example_client :: client where
  "example_client =
     \<lparr>client_baseUrl = ''https://api.example.com'', client_config = example_config,
      client_serverUrl = None\<rparr>"


text \<open>A server answering every request with \<^verbatim>\<open>{"data":["blog"]}\<close>, and one
  answering with the bare list \<^verbatim>\<open>["blog"]\<close>.\<close>

definition wrapped_io :: "nat io" where
  "wrapped_io =
     script_io (\<lambda>n req. json_response 200 ''{\"data\":[\"blog\"]}''
                           (JObj [(''data'', JArr [JStr ''blog''])]))"

definition bare_io :: "nat io" where
  "bare_io = script_io (\<lambda>n req. json_response 200 ''[\"blog\"]'' (JArr [JStr ''blog'']))"

text \<open>Two servers, and a state in which a listing has been cached: \<open>blog\<close> lives on the
  first server and run \<open>r1\<close> was started there.\<close>

definition server_a :: citizen_server where
  "server_a = \<lparr>server_id = Some (JStr ''1''), slug = ''s1'', domain = ''s1.example.com'',
               organization_id = Some (JStr ''o1''), created_at = None\<rparr>"

definition server_b :: citizen_server where
  "server_b = \<lparr>server_id = Some (JStr ''2''), slug = ''s2'', domain = ''s2.example.com'',
               organization_id = Some (JStr ''o1''), created_at = None\<rparr>"

definition server_c :: citizen_server where
  "server_c = \<lparr>server_id = Some (JStr ''3''), slug = ''s3'', domain = ''s3.example.com'',
               organization_id = Some (JStr ''o1''), created_at = None\<rparr>"

definition blog_entry :: app_with_server where
  "blog_entry = \<lparr>app_name = JStr ''blog'', app_status = None,
                 server_url = ''https://s1.example.com'', server_slug = ''s1''\<rparr>"

definition warm_state :: mcp_state where
  "warm_state =
     \<lparr>config = Some example_config, servers = [server_a, server_b],
      appServerMap = [(JStr ''blog'', blog_entry)],
      runServerMap = [(JStr ''r1'', ''https://s1.example.com'')],
      citizenAuthUrl = ''https://auth.example.com''\<rparr>"

text \<open>A transport that fails every call.\<close>

definition failing_io :: "nat io" where
  "failing_io = script_io (\<lambda>n req. Rejected)"

text \<open>An identity provider that authorizes at the first poll, and a discovery endpoint
  that knows no server.\<close>

definition token_body :: json where
  "token_body =
     JObj [(''data'',
        JObj [(''access_token'', JStr ''tok2''), (''token_type'', JStr ''Bearer''),
              (''expires_in'', JNum 3600),
              (''user'', JObj [(''id'', JStr ''u1''), (''email'', JStr ''a@example.com''),
                               (''name'', JStr ''Ada'')]),
              (''organization'', JObj [(''id'', JStr ''o1''), (''name'', JStr ''Org''),
                                       (''role'', JStr ''member'')])])]"

definition token_text :: string where
  "token_text =
     ''{\"data\":{\"access_token\":\"tok2\",\"token_type\":\"Bearer\",\"expires_in\":3600,''
     @ ''\"user\":{\"id\":\"u1\",\"email\":\"a@example.com\",\"name\":\"Ada\"},''
     @ ''\"organization\":{\"id\":\"o1\",\"name\":\"Org\",\"role\":\"member\"}}}''"

definition provider :: "nat \<Rightarrow> request \<Rightarrow> fetch_result" where
  "provider n req =
     (if req_url req = ''https://auth.example.com/api/v1/auth/device/init''
      then json_response 200
             (''{\"data\":{\"device_code\":\"dc\",\"user_code\":\"UC\",''
              @ ''\"verification_url_complete\":\"https://auth.example.com/d\",\"interval\":5}}'')
             (JObj [(''data'', JObj [(''device_code'', JStr ''dc''), (''user_code'', JStr ''UC''),
                                     (''verification_url_complete'', JStr ''https://auth.example.com/d''),
                                     (''interval'', JNum 5)])])
      else if req_url req = ''https://auth.example.com/api/v1/auth/device/status''
      then json_response 200 ''{\"data\":{\"status\":\"authorized\"}}''
             (JObj [(''data'', JObj [(''status'', JStr ''authorized'')])])
      else if req_url req = ''https://auth.example.com/api/v1/auth/device/token''
      then json_response 200 token_text token_body
      else json_response 200 ''{\"data\":[]}'' (JObj [(''data'', JArr [])]))"

definition new_config :: device_auth_config where
  "new_config =
     \<lparr>access_token = ''tok2'', token_type = ''Bearer'', expires_at = 3605000,
      user = \<lparr>user_id = ''u1'', user_email = ''a@example.com'', user_name = ''Ada''\<rparr>,
      organization = \<lparr>org_id = ''o1'', org_name = ''Org'', org_role = ''member''\<rparr>\<rparr>"

text \<open>Three servers, of which only the second knows run \<open>r7\<close>.\<close>

definition cold_state :: mcp_state where
  "cold_state =
     \<lparr>config = Some example_config, servers = [server_a, server_b, server_c],
      appServerMap = [], runServerMap = [],
      citizenAuthUrl = ''https://auth.example.com''\<rparr>"

definition run_host :: "nat \<Rightarrow> request \<Rightarrow> fetch_result" where
  "run_host n req =
     (if req_url req = ''https://s2.example.com/api/v1/citizen/runs/r7''
      then json_response 200 ''{\"data\":{\"run_id\":\"r7\"}}''
             (JObj [(''data'', JObj [(''run_id'', JStr ''r7'')])])
      else Responded \<lparr>status = 404, statusText = ''Not Found'', body_text = ''not found'',
                       body_json = None\<rparr>)"

text \<open>The same three servers, not yet discovered: the identity provider lists them, and
  only the second knows run \<open>r7\<close>.\<close>

definition undiscovered_state :: mcp_state where
  "undiscovered_state =
     \<lparr>config = Some example_config, servers = [],
      appServerMap = [], runServerMap = [],
      citizenAuthUrl = ''https://auth.example.com''\<rparr>"

definition servers_text :: string where
  "servers_text =
     ''{\"data\":[{\"id\":\"1\",\"slug\":\"s1\",\"domain\":\"s1.example.com\",\"organization_id\":\"o1\"},''
     @ ''{\"id\":\"2\",\"slug\":\"s2\",\"domain\":\"s2.example.com\",\"organization_id\":\"o1\"},''
     @ ''{\"id\":\"3\",\"slug\":\"s3\",\"domain\":\"s3.example.com\",\"organization_id\":\"o1\"}]}''"

definition servers_body :: json where
  "servers_body =
     JObj [(''data'', JArr
       [JObj [(''id'', JStr ''1''), (''slug'', JStr ''s1''), (''domain'', JStr ''s1.example.com''),
              (''organization_id'', JStr ''o1'')],
        JObj [(''id'', JStr ''2''), (''slug'', JStr ''s2''), (''domain'', JStr ''s2.example.com''),
              (''organization_id'', JStr ''o1'')],
        JObj [(''id'', JStr ''3''), (''slug'', JStr ''s3''), (''domain'', JStr ''s3.example.com''),
              (''organization_id'', JStr ''o1'')]])]"

definition discovering_host :: "nat \<Rightarrow> request \<Rightarrow> fetch_result" where
  "discovering_host n req =
     (if req_url req = ''https://auth.example.com/api/v1/servers?org_id=o1''
      then json_response 200 servers_text servers_body
      else run_host n req)"

text \<open>Two rounds of app listings over two servers: the first two requests are answered
  with \<open>blog\<close> and \<open>shop\<close>, all later ones with \<open>wiki\<close> and \<open>api\<close>.\<close>

definition two_rounds :: "nat \<Rightarrow> request \<Rightarrow> fetch_result" where
  "two_rounds n req =
     (if req_url req = ''https://s1.example.com/api/v1/citizen/apps''
      then (if n < 2 then json_response 200 ''[\"blog\"]'' (JArr [JStr ''blog''])
            else json_response 200 ''[\"wiki\"]'' (JArr [JStr ''wiki'']))
      else (if n < 2 then json_response 200 ''{\"data\":[\"shop\"]}''
                            (JObj [(''data'', JArr [JStr ''shop''])])
            else json_response 200 ''{\"data\":[{\"app_name\":\"api\",\"status\":\"running\"}]}''
                   (JObj [(''data'', JArr [JObj [(''app_name'', JStr ''api''),
                                                 (''status'', JStr ''running'')]])])))"

definition two_servers_state :: mcp_state where
  "two_servers_state =
     \<lparr>config = Some example_config, servers = [server_a, server_b],
      appServerMap = [], runServerMap = [],
      citizenAuthUrl = ''https://auth.example.com''\<rparr>"

definition round1 :: "(failure + list_apps_result) \<times> mcp_state \<times> nat env" where
  "round1 = handleListApps (script_io two_rounds) two_servers_state start_env"

definition round2 :: "(failure + list_apps_result) \<times> mcp_state \<times> nat env" where
  "round2 = handleListApps (script_io two_rounds) (fst (snd round1)) (snd (snd round1))"

text \<open>Three servers of which the second answers the app listing with status 500.\<close>

definition one_down :: "nat \<Rightarrow> request \<Rightarrow> fetch_result" where
  "one_down n req =
     (if req_url req = ''https://s1.example.com/api/v1/citizen/apps''
      then json_response 200 ''[\"blog\",\"shop\"]'' (JArr [JStr ''blog'', JStr ''shop''])
      else if req_url req = ''https://s2.example.com/api/v1/citizen/apps''
      then Responded \<lparr>status = 500, statusText = ''Internal Server Error'',
                       body_text = ''down'', body_json = None\<rparr>
      else json_response 200 ''{\"data\":[{\"app_name\":\"api\",\"status\":\"running\"}]}''
             (JObj [(''data'', JArr [JObj [(''app_name'', JStr ''api''),
                                           (''status'', JStr ''running'')]])]))"

definition listing_one_down :: "(failure + list_apps_result) \<times> mcp_state \<times> nat env" where
  "listing_one_down = handleListApps (script_io one_down) cold_state start_env"

text \<open>Two servers that each number their own runs: \<open>blog\<close> lives on the first, \<open>shop\<close> on
  the second, and each answers a deployment with run id \<open>42\<close>.\<close>

definition deploy_host :: "nat \<Rightarrow> request \<Rightarrow> fetch_result" where
  "deploy_host n req =
     (if req_url req = ''https://s1.example.com/api/v1/citizen/apps''
      then json_response 200 ''[\"blog\"]'' (JArr [JStr ''blog''])
      else if req_url req = ''https://s2.example.com/api/v1/citizen/apps''
      then json_response 200 ''[\"shop\"]'' (JArr [JStr ''shop''])
      else json_response 200 ''{\"data\":{\"run_id\":\"42\",\"status\":\"queued\"}}''
             (JObj [(''data'', JObj [(''run_id'', JStr ''42''), (''status'', JStr ''queued'')])]))"

definition blog_args :: git_args where
  "blog_args = \<lparr>git_app_name = ''blog'', git_url = ''https://git.example.com/blog.git'',
                git_branch = None, git_builder = None\<rparr>"

definition shop_args :: git_args where
  "shop_args = \<lparr>git_app_name = ''shop'', git_url = ''https://git.example.com/shop.git'',
                git_branch = None, git_builder = None\<rparr>"

definition deploy1 :: "call_result \<times> mcp_state \<times> nat env" where
  "deploy1 = handleToolCall (script_io deploy_host) (DeployFromGit blog_args)
               two_servers_state start_env"

definition deploy2 :: "call_result \<times> mcp_state \<times> nat env" where
  "deploy2 = handleToolCall (script_io deploy_host) (DeployFromGit shop_args)
               (fst (snd deploy1)) (snd (snd deploy1))"

text \<open>Asking for the status of run \<open>r7\<close>, which only the second of the three known
  servers knows.\<close>

definition status_call :: "call_result \<times> mcp_state \<times> nat env" where
  "status_call = handleToolCall (script_io run_host) (GetDeploymentStatus ''r7'')
                   cold_state start_env"

section \<open>Unfolding the examples\<close>

lemmas example_defs =
  script_io_def start_env_def json_response_def example_config_def
  server_a_def server_b_def server_c_def cold_state_def two_servers_state_def
  two_rounds_def one_down_def

lemmas listing_defs =
  handleListApps_def listAppsOn_def bearer_headers_def apps_request_def server_base_def
  do_fetch_def ok_def response_json_def appsListOf_def js_or_def js_truthy_def appNameOf_def
  appStatusOf_def map_set_def appNames_def totalApps_def log_line_def

lemmas deploy_defs =
  handleToolCall_def dispatch_def authorized_def ensureAuth_def handleDeployFromGit_def
  getServerUrlForApp_def map_get_def fetchJson_def deploy_request_def orDefault_def
  unwrap_def rememberRun_def slugOrUnknown_def deploy_host_def blog_args_def shop_args_def

lemmas status_defs =
  handleToolCall_def dispatch_def authorized_def ensureAuth_def handleGetDeploymentStatus_def
  getServerUrlForRun_def map_get_def fetchJson_def run_request_def unwrap_def runReport_def
  run_host_def status_call_def bearer_headers_def server_base_def do_fetch_def ok_def
  response_json_def js_or_def js_truthy_def map_set_def log_line_def

section \<open>Credential store: expiry\<close>

text \<open>
  C6, as stated, at its boundary: a bundle whose expiry instant equals the clock reading
  at load (so an expiry that is not in the future) is still returned by \<open>loadConfig\<close>.
\<close>

theorem loadConfig_expiry_boundary_counterexample:
  "fst (loadConfig (clock_io (Stored example_config)) (clock_env 1000)) = Some example_config
   \<and> \<not> (of_int (io_now (clock_io (Stored example_config)) (world (clock_env 1000)))
          < expires_at example_config)"
  by (simp add: loadConfig_def clock_io_def clock_env_def example_config_def)

text \<open>
  C6, amended: for a stored bundle, \<open>loadConfig\<close> returns the bundle exactly when the
  clock reading at load is not after the expiry instant (less than or equal to it), and
  returns nothing exactly when the clock reading is strictly after it.
\<close>

theorem loadConfig_expiry:
  assumes "io_config_file io (world env) = Stored c"
  shows "fst (loadConfig io env) =
           (if of_int (io_now io (world env)) \<le> expires_at c then Some c else None)"
  using assms by (simp add: loadConfig_def)

theorem loadConfig_expiry_witness:
  "io_config_file (clock_io (Stored example_config)) (world (clock_env 999)) = Stored example_config
   \<and> fst (loadConfig (clock_io (Stored example_config)) (clock_env 999)) = Some example_config
   \<and> fst (loadConfig (clock_io (Stored example_config)) (clock_env 1001)) = None"
  using loadConfig_expiry [of "clock_io (Stored example_config)" "clock_env 999" example_config]
        loadConfig_expiry [of "clock_io (Stored example_config)" "clock_env 1001" example_config]
  by (simp add: clock_io_def clock_env_def example_config_def)

section \<open>Device authorization: the poll loop ends\<close>

lemma do_fetch_exchanges:
  "do_fetch io req env = (fr, env') \<Longrightarrow>
     exchanges env' = exchanges env @ [(req, fr)] \<and> console env' = console env
     \<and> fr = fst (io_fetch io req (world env))"
  by (auto simp: do_fetch_def split: prod.splits)





section \<open>Remote API gateway: the response envelope\<close>

text \<open>
  C8, as stated, fails for a \<^verbatim>\<open>data\<close> field holding a falsy value: to the 2xx body
  \<^verbatim>\<open>{"data":0}\<close>, whose \<^verbatim>\<open>data\<close> field is 0, \<open>get\<close> and \<open>post\<close> answer with the
  whole body instead of 0.
\<close>

theorem envelope_falsy_data_counterexample:
  "data_field (JObj [(''data'', JNum 0)]) = Some (JNum 0)
   \<and> fst (client_get (script_io (\<lambda>n req. json_response 200 ''{\"data\":0}'' (JObj [(''data'', JNum 0)])))
             example_client ''/api/v1/citizen/apps'' start_env)
       = Inr (JObj [(''data'', JNum 0)])
   \<and> fst (client_post (script_io (\<lambda>n req. json_response 200 ''{\"data\":0}'' (JObj [(''data'', JNum 0)])))
             example_client ''/api/v1/citizen/apps'' (JObj []) start_env)
       = Inr (JObj [(''data'', JNum 0)])
   \<and> Inr (JObj [(''data'', JNum 0)]) \<noteq> (Inr (JNum 0) :: error + json)"
  by (simp add: data_field_def client_get_def client_post_def getCitizenBaseUrl_def
                example_client_def do_fetch_def script_io_def start_env_def json_response_def
                api_result_def ok_def response_json_def unwrap_def)

lemma api_result_envelope:
  assumes "ok r" and "body_json r = Some b"
  shows "(data_field b = Some v \<and> truthy v \<longrightarrow> api_result (Responded r) = Inr v)
       \<and> (data_field b = Some v \<and> \<not> truthy v \<longrightarrow> api_result (Responded r) = Inr b)
       \<and> (data_field b = None \<and> b \<noteq> JNull \<longrightarrow> api_result (Responded r) = Inr b)"
  using assms
  by (cases b) (auto simp: api_result_def response_json_def unwrap_def data_field_def)

text \<open>
  C8, amended: for every 2xx response with a JSON body, \<open>get\<close> and \<open>post\<close> return the
  value of the body's \<^verbatim>\<open>data\<close> field when the field is present and truthy; they
  return the raw body unchanged when the field is present and falsy (\<^verbatim>\<open>null\<close>,
  \<^verbatim>\<open>false\<close>, \<^verbatim>\<open>0\<close>, \<^verbatim>\<open>""\<close>), and when there is no such field and the body is
  not \<^verbatim>\<open>null\<close>.
\<close>

theorem gateway_envelope:
  assumes "getCitizenBaseUrl c = Inr base"
    and "io_fetch io (get_request c base path) (world env) = (Responded r, w1)"
    and "io_fetch io (post_request c base path body) (world env) = (Responded r, w2)"
    and "ok r" and "body_json r = Some b"
  shows "(data_field b = Some v \<and> truthy v \<longrightarrow>
            fst (client_get io c path env) = Inr v
            \<and> fst (client_post io c path body env) = Inr v)
       \<and> (data_field b = Some v \<and> \<not> truthy v \<longrightarrow>
            fst (client_get io c path env) = Inr b
            \<and> fst (client_post io c path body env) = Inr b)
       \<and> (data_field b = None \<and> b \<noteq> JNull \<longrightarrow>
            fst (client_get io c path env) = Inr b
            \<and> fst (client_post io c path body env) = Inr b)"
proof -
  have g: "fst (client_get io c path env) = api_result (Responded r)"
    using assms(1,2) by (simp add: client_get_def do_fetch_def)
  have p: "fst (client_post io c path body env) = api_result (Responded r)"
    using assms(1,3) by (simp add: client_post_def do_fetch_def)
  show ?thesis
    using api_result_envelope [OF assms(4,5), of v] g p by simp
qed

theorem gateway_envelope_witness:
  "data_field (JObj [(''data'', JArr [JStr ''blog''])]) = Some (JArr [JStr ''blog''])
   \<and> truthy (JArr [JStr ''blog''])
   \<and> fst (client_get wrapped_io example_client ''/api/v1/citizen/apps'' start_env)
       = Inr (JArr [JStr ''blog''])
   \<and> fst (client_post wrapped_io example_client ''/api/v1/citizen/apps'' (JObj []) start_env)
       = Inr (JArr [JStr ''blog''])
   \<and> data_field (JArr [JStr ''blog'']) = None
   \<and> fst (client_get bare_io example_client ''/api/v1/citizen/apps'' start_env)
       = Inr (JArr [JStr ''blog''])
   \<and> fst (client_post bare_io example_client ''/api/v1/citizen/apps'' (JObj []) start_env)
       = Inr (JArr [JStr ''blog''])"
proof -
  let ?r1 = "\<lparr>status = 200, statusText = '''', body_text = ''{\"data\":[\"blog\"]}'',
              body_json = Some (JObj [(''data'', JArr [JStr ''blog''])])\<rparr>"
  let ?r2 = "\<lparr>status = 200, statusText = '''', body_text = ''[\"blog\"]'',
              body_json = Some (JArr [JStr ''blog''])\<rparr>"
  have base: "getCitizenBaseUrl example_client = Inr ''https://api.example.com''"
    by (simp add: getCitizenBaseUrl_def example_client_def)
  have w: "fst (client_get wrapped_io example_client ''/api/v1/citizen/apps'' start_env)
             = Inr (JArr [JStr ''blog''])
         \<and> fst (client_post wrapped_io example_client ''/api/v1/citizen/apps'' (JObj []) start_env)
             = Inr (JArr [JStr ''blog''])"
    using gateway_envelope [OF base, of wrapped_io "''/api/v1/citizen/apps''" start_env ?r1
            "Suc 0" "JObj []" "Suc 0" "JObj [(''data'', JArr [JStr ''blog''])]"
            "JArr [JStr ''blog'']"]
    by (simp add: wrapped_io_def script_io_def json_response_def start_env_def ok_def
                  data_field_def)
  have b: "fst (client_get bare_io example_client ''/api/v1/citizen/apps'' start_env)
             = Inr (JArr [JStr ''blog''])
         \<and> fst (client_post bare_io example_client ''/api/v1/citizen/apps'' (JObj []) start_env)
             = Inr (JArr [JStr ''blog''])"
    using gateway_envelope [OF base, of bare_io "''/api/v1/citizen/apps''" start_env ?r2
            "Suc 0" "JObj []" "Suc 0" "JArr [JStr ''blog'']" "JNull"]
    by (simp add: bare_io_def script_io_def json_response_def start_env_def ok_def
                  data_field_def)
  show ?thesis
    using w b by (simp add: data_field_def)
qed

section \<open>Routing cache: cache hits, invalidation, the early return\<close>

text \<open>
  C1: when the application name is in the app-to-server map, \<open>getServerUrlForApp\<close>
  returns the cached server URL; the surroundings are returned as they were (no exchange
  with the network is added, the world is untouched) and so is the state, with its server
  set, app-to-server map and run-to-server map.
\<close>

theorem getServerUrlForApp_cached:
  assumes "map_get (appServerMap st) appName = Some appInfo"
  shows "getServerUrlForApp io appName st env = (Inr (server_url appInfo), st, env)"
  using assms by (simp add: getServerUrlForApp_def)

theorem getServerUrlForApp_cached_witness:
  "map_get (appServerMap warm_state) ''blog'' = Some blog_entry
   \<and> getServerUrlForApp failing_io ''blog'' warm_state start_env
       = (Inr ''https://s1.example.com'', warm_state, start_env)"
proof -
  have hit: "map_get (appServerMap warm_state) ''blog'' = Some blog_entry"
    by (simp add: map_get_def warm_state_def)
  show ?thesis
    using getServerUrlForApp_cached [OF hit, of failing_io start_env] hit
    by (simp add: blog_entry_def)
qed

text \<open>
  C5: whenever \<open>handleAuthenticate\<close> succeeds with a new bundle, the server set, the
  app-to-server map and the run-to-server map of the resulting state are empty, whatever
  they held before.
\<close>

theorem handleAuthenticate_clears_caches:
  assumes "handleAuthenticate io st env = (Inr c, st', env')"
  shows "servers st' = [] \<and> appServerMap st' = [] \<and> runServerMap st' = []
         \<and> config st' = Some c"
  using assms by (auto simp: handleAuthenticate_def split: prod.splits sum.splits)

theorem handleAuthenticate_clears_caches_witness:
  "fst (handleAuthenticate (script_io provider) warm_state start_env) = Inr new_config
   \<and> servers warm_state \<noteq> [] \<and> appServerMap warm_state \<noteq> [] \<and> runServerMap warm_state \<noteq> []
   \<and> servers (fst (snd (handleAuthenticate (script_io provider) warm_state start_env))) = []
   \<and> appServerMap (fst (snd (handleAuthenticate (script_io provider) warm_state start_env))) = []
   \<and> runServerMap (fst (snd (handleAuthenticate (script_io provider) warm_state start_env))) = []"
proof -
  have res: "fst (handleAuthenticate (script_io provider) warm_state start_env) = Inr new_config"
    by (simp add: handleAuthenticate_def authenticate_def warm_state_def script_io_def provider_def
          start_env_def do_fetch_def init_request_def json_response_def ok_def response_json_def
          pollForAuthorization_def pollLoop.simps maxAttempts_def status_request_def
          classify_poll_def log_line_def exchangeToken_def token_request_def build_config_def
          token_body_def str_field_def decode_user_def decode_organization_def new_config_def)
  obtain st' env' where
    run: "handleAuthenticate (script_io provider) warm_state start_env = (Inr new_config, st', env')"
    using res by (cases "handleAuthenticate (script_io provider) warm_state start_env") auto
  have before: "servers warm_state \<noteq> [] \<and> appServerMap warm_state \<noteq> []
                \<and> runServerMap warm_state \<noteq> []"
    by (simp add: warm_state_def)
  show ?thesis
    using handleAuthenticate_clears_caches [OF run] run before by simp
qed

lemma servers_update_same: "servers st = ss \<Longrightarrow> st\<lparr>servers := ss\<rparr> = st"
  by (cases st) simp

text \<open>
  C10: when \<open>handleListApps\<close> starts with an empty server set and the discovery call
  returns an empty set as well, it returns the "no servers" result at once: the state is
  returned as it was, so the app-to-server map keeps every entry it had (entries of an
  earlier listing survive), the run-to-server map too, and the server set is still empty.
\<close>

theorem handleListApps_no_servers_keeps_map:
  assumes "servers st = []" and "fetchServers io st env = (Inr [], env')"
  shows "handleListApps io st env = (Inr NoCitizenServers, st, env')
         \<and> appServerMap (fst (snd (handleListApps io st env))) = appServerMap st
         \<and> servers (fst (snd (handleListApps io st env))) = []"
  using assms by (simp add: handleListApps_def servers_update_same)

theorem handleListApps_no_servers_keeps_map_witness:
  "servers (warm_state\<lparr>servers := []\<rparr>) = []
   \<and> fst (fetchServers (script_io provider) (warm_state\<lparr>servers := []\<rparr>) start_env) = Inr []
   \<and> fst (handleListApps (script_io provider) (warm_state\<lparr>servers := []\<rparr>) start_env)
       = Inr NoCitizenServers
   \<and> appServerMap (fst (snd (handleListApps (script_io provider)
                                 (warm_state\<lparr>servers := []\<rparr>) start_env)))
       = [(JStr ''blog'', blog_entry)]"
proof -
  let ?st = "warm_state\<lparr>servers := []\<rparr>"
  have emp: "servers ?st = []" by simp
  have res: "fst (fetchServers (script_io provider) ?st start_env) = Inr []"
    by (simp add: fetchServers_def warm_state_def script_io_def provider_def start_env_def
          do_fetch_def servers_request_def example_config_def json_response_def ok_def
          response_json_def servers_of_body_def)
  obtain env' where f: "fetchServers (script_io provider) ?st start_env = (Inr [], env')"
    using res by (cases "fetchServers (script_io provider) ?st start_env") auto
  show ?thesis
    using handleListApps_no_servers_keeps_map [OF emp f] f
    by (simp add: warm_state_def)
qed

section \<open>Routing cache: resolving the server of a run\<close>

lemma probeServers_found:
  assumes "bearer_headers st = Inr hdrs"
  shows "probeServers io runId srvs st env = (Inr url, st', env') \<Longrightarrow>
     \<exists>pre s post frs fr.
        srvs = pre @ s # post \<and> length frs = length pre
      \<and> exchanges env' = exchanges env @ probe_trace runId hdrs (pre @ [s]) (frs @ [fr])
      \<and> (\<forall>f\<in>set frs. \<not> responded_2xx f) \<and> responded_2xx fr
      \<and> url = server_base s
      \<and> st' = st\<lparr>runServerMap := map_set (runServerMap st) (JStr runId) (server_base s)\<rparr>"
proof (induction srvs arbitrary: env)
  case Nil
  then show ?case by simp
next
  case (Cons a srvs)
  let ?req = "run_request (server_base a) runId hdrs"
  obtain fr env1 where f: "do_fetch io ?req env = (fr, env1)" by (cases "do_fetch io ?req env")
  have ex1: "exchanges env1 = exchanges env @ [(?req, fr)]"
    using do_fetch_exchanges [OF f] by simp
  show ?case
  proof (cases "responded_2xx fr")
    case True
    then obtain r where r: "fr = Responded r" "ok r"
      by (cases fr) (auto simp: responded_2xx_def)
    have "url = server_base a"
      and "st' = st\<lparr>runServerMap := map_set (runServerMap st) (JStr runId) (server_base a)\<rparr>"
      and "env' = env1"
      using Cons.prems assms f r by auto
    then have "a # srvs = [] @ a # srvs
      \<and> length ([]::fetch_result list) = length ([]::citizen_server list)
      \<and> exchanges env' = exchanges env @ probe_trace runId hdrs ([] @ [a]) ([] @ [fr])
      \<and> (\<forall>f\<in>set []. \<not> responded_2xx f) \<and> responded_2xx fr
      \<and> url = server_base a
      \<and> st' = st\<lparr>runServerMap := map_set (runServerMap st) (JStr runId) (server_base a)\<rparr>"
      using ex1 True by (simp add: probe_trace_def probe_get_def run_request_def server_base_def)
    then show ?thesis by blast
  next
    case False
    then have rest: "probeServers io runId srvs st env1 = (Inr url, st', env')"
      using Cons.prems assms f by (cases fr) (auto simp: responded_2xx_def)
    from Cons.IH [OF rest] obtain pre s post frs fr' where
      ih: "srvs = pre @ s # post" "length frs = length pre"
        "exchanges env' = exchanges env1 @ probe_trace runId hdrs (pre @ [s]) (frs @ [fr'])"
        "\<forall>f\<in>set frs. \<not> responded_2xx f" "responded_2xx fr'" "url = server_base s"
        "st' = st\<lparr>runServerMap := map_set (runServerMap st) (JStr runId) (server_base s)\<rparr>"
      by blast
    have "a # srvs = (a # pre) @ s # post \<and> length (fr # frs) = length (a # pre)
      \<and> exchanges env' = exchanges env
            @ probe_trace runId hdrs ((a # pre) @ [s]) ((fr # frs) @ [fr'])
      \<and> (\<forall>f\<in>set (fr # frs). \<not> responded_2xx f) \<and> responded_2xx fr'
      \<and> url = server_base s
      \<and> st' = st\<lparr>runServerMap := map_set (runServerMap st) (JStr runId) (server_base s)\<rparr>"
      using ih ex1 False by (simp add: probe_trace_def probe_get_def run_request_def server_base_def)
    then show ?thesis by blast
  qed
qed

lemma probeServers_not_found:
  assumes "bearer_headers st = Inr hdrs"
  shows "probeServers io runId srvs st env = (Inl e, st', env') \<Longrightarrow>
     \<exists>frs. length frs = length srvs
      \<and> exchanges env' = exchanges env @ probe_trace runId hdrs srvs frs
      \<and> (\<forall>f\<in>set frs. \<not> responded_2xx f)
      \<and> e = Thrown (RunNotFound runId) \<and> st' = st"
proof (induction srvs arbitrary: env)
  case Nil
  then show ?case by (simp add: probe_trace_def probe_get_def run_request_def server_base_def)
next
  case (Cons a srvs)
  let ?req = "run_request (server_base a) runId hdrs"
  obtain fr env1 where f: "do_fetch io ?req env = (fr, env1)" by (cases "do_fetch io ?req env")
  have ex1: "exchanges env1 = exchanges env @ [(?req, fr)]"
    using do_fetch_exchanges [OF f] by simp
  have no: "\<not> responded_2xx fr"
    using Cons.prems assms f by (cases fr) (auto simp: responded_2xx_def split: if_splits)
  then have rest: "probeServers io runId srvs st env1 = (Inl e, st', env')"
    using Cons.prems assms f by (cases fr) (auto simp: responded_2xx_def)
  from Cons.IH [OF rest] obtain frs where
    ih: "length frs = length srvs"
      "exchanges env' = exchanges env1 @ probe_trace runId hdrs srvs frs"
      "\<forall>f\<in>set frs. \<not> responded_2xx f" "e = Thrown (RunNotFound runId)" "st' = st"
    by blast
  have "length (fr # frs) = length (a # srvs)
      \<and> exchanges env' = exchanges env @ probe_trace runId hdrs (a # srvs) (fr # frs)
      \<and> (\<forall>f\<in>set (fr # frs). \<not> responded_2xx f)
      \<and> e = Thrown (RunNotFound runId) \<and> st' = st"
    using ih ex1 no by (simp add: probe_trace_def probe_get_def run_request_def server_base_def)
  then show ?case by blast
qed

lemma map_get_map_set_same: "map_get (map_set m (JStr k) v) k = Some v"
  by (simp add: map_get_def map_set_def update_conv')

lemma getServerUrlForRun_hit:
  "map_get (runServerMap st) runId = Some url \<Longrightarrow> url \<noteq> [] \<Longrightarrow>
     getServerUrlForRun io runId st env = (Inr url, st, env)"
  by (simp add: getServerUrlForRun_def)

text \<open>When the server set is empty and the discovery call fails, its error is the result
  and no server is probed.\<close>

lemma getServerUrlForRun_discovery_fails:
  "map_get (runServerMap st) runId = None \<Longrightarrow> servers st = [] \<Longrightarrow>
   fetchServers io st env = (Inl e, env1) \<Longrightarrow>
     getServerUrlForRun io runId st env = (Inl e, st, env1)"
  by (simp add: getServerUrlForRun_def)

lemma getServerUrlForRun_probes:
  assumes miss: "map_get (runServerMap st) runId = None"
    and cfg: "config st = Some c"
    and known: "(servers st \<noteq> [] \<and> known = servers st \<and> env1 = env)
                \<or> (servers st = [] \<and> fetchServers (io :: 'w io) st env = (Inr known, env1))"
    and run: "getServerUrlForRun io runId st env = (res, st', env')"
    and hdrs: "hdrs = [(''Authorization'', ''Bearer '' @ access_token c)]"
  shows "servers st' = known \<and> appServerMap st' = appServerMap st \<and>
     (case res of
        Inr url \<Rightarrow>
          (\<exists>pre s post frs fr.
              known = pre @ s # post \<and> length frs = length pre
            \<and> exchanges env' = exchanges env1 @ probe_trace runId hdrs (pre @ [s]) (frs @ [fr])
            \<and> (\<forall>f\<in>set frs. \<not> responded_2xx f) \<and> responded_2xx fr
            \<and> url = ''https://'' @ domain s
            \<and> runServerMap st' = map_set (runServerMap st) (JStr runId) url
            \<and> (\<forall>(io2 :: 'w io) env2. getServerUrlForRun io2 runId st' env2 = (Inr url, st', env2)))
      | Inl e \<Rightarrow>
          (\<exists>frs. length frs = length known
            \<and> exchanges env' = exchanges env1 @ probe_trace runId hdrs known frs
            \<and> (\<forall>f\<in>set frs. \<not> responded_2xx f)
            \<and> e = Thrown (RunNotFound runId)
            \<and> runServerMap st' = runServerMap st))"
proof -
  let ?st1 = "st\<lparr>servers := known\<rparr>"
  have bh: "bearer_headers ?st1 = Inr hdrs"
    using cfg hdrs by (simp add: bearer_headers_def)
  have probe: "probeServers io runId known ?st1 env1 = (res, st', env')"
    using known
  proof
    assume a: "servers st \<noteq> [] \<and> known = servers st \<and> env1 = env"
    then have "?st1 = st" by (simp add: servers_update_same)
    with a run miss show ?thesis by (simp add: getServerUrlForRun_def)
  next
    assume "servers st = [] \<and> fetchServers io st env = (Inr known, env1)"
    with run miss show ?thesis by (simp add: getServerUrlForRun_def)
  qed
  show ?thesis
  proof (cases res)
    case (Inl e)
    from probeServers_not_found [OF bh probe [unfolded Inl]] obtain frs where
      "length frs = length known"
      "exchanges env' = exchanges env1 @ probe_trace runId hdrs known frs"
      "\<forall>f\<in>set frs. \<not> responded_2xx f" "e = Thrown (RunNotFound runId)" "st' = ?st1"
      by blast
    then show ?thesis using Inl by auto
  next
    case (Inr url)
    from probeServers_found [OF bh probe [unfolded Inr]] obtain pre s post frs fr where
      f: "known = pre @ s # post" "length frs = length pre"
        "exchanges env' = exchanges env1 @ probe_trace runId hdrs (pre @ [s]) (frs @ [fr])"
        "\<forall>f\<in>set frs. \<not> responded_2xx f" "responded_2xx fr" "url = server_base s"
        "st' = ?st1\<lparr>runServerMap := map_set (runServerMap ?st1) (JStr runId) (server_base s)\<rparr>"
      by blast
    have cached: "map_get (runServerMap st') runId = Some url"
      using f(6,7) by (simp add: map_get_map_set_same)
    have "url \<noteq> []" using f(6) by (simp add: server_base_def)
    then have again: "\<forall>(io2 :: 'w io) env2. getServerUrlForRun io2 runId st' env2 = (Inr url, st', env2)"
      using getServerUrlForRun_hit [OF cached] by blast
    have "known = pre @ s # post \<and> length frs = length pre
        \<and> exchanges env' = exchanges env1 @ probe_trace runId hdrs (pre @ [s]) (frs @ [fr])
        \<and> (\<forall>f\<in>set frs. \<not> responded_2xx f) \<and> responded_2xx fr
        \<and> url = ''https://'' @ domain s
        \<and> runServerMap st' = map_set (runServerMap st) (JStr runId) url
        \<and> (\<forall>(io2 :: 'w io) env2. getServerUrlForRun io2 runId st' env2 = (Inr url, st', env2))"
      using f again by (simp add: server_base_def)
    then have "\<exists>pre s post frs fr. known = pre @ s # post \<and> length frs = length pre
        \<and> exchanges env' = exchanges env1 @ probe_trace runId hdrs (pre @ [s]) (frs @ [fr])
        \<and> (\<forall>f\<in>set frs. \<not> responded_2xx f) \<and> responded_2xx fr
        \<and> url = ''https://'' @ domain s
        \<and> runServerMap st' = map_set (runServerMap st) (JStr runId) url
        \<and> (\<forall>(io2 :: 'w io) env2. getServerUrlForRun io2 runId st' env2 = (Inr url, st', env2))"
      by blast
    moreover have "servers st' = known \<and> appServerMap st' = appServerMap st"
      using f(7) by simp
    ultimately show ?thesis using Inr by simp
  qed
qed

lemma fetchServers_log:
  assumes "config st = Some c"
    and "fr = fst (io_fetch io (discovery_get (citizenAuthUrl st) c) (world env))"
  shows "\<exists>env1. fetchServers io st env = (discovery_answer fr, env1)
           \<and> exchanges env1 = exchanges env @ [(discovery_get (citizenAuthUrl st) c, fr)]"
  using assms
  by (auto simp: fetchServers_def servers_request_def discovery_get_def do_fetch_def
        discovery_answer_def response_json_def
        split: prod.splits fetch_result.splits option.splits)

text \<open>
  C2: let the run identifier be absent from the run-to-server map (and a bundle be
  loaded), and let \<open>fr\<close> be the answer of the identity provider to the discovery GET.
  When the server set is not empty nothing is sent to the identity provider and the known
  servers are the server set. When it is empty the discovery GET is sent first: its
  exchange is the first one added to the log; if it fails, its error is the result, the
  state is unchanged and nothing else is sent; otherwise the servers it lists become the
  server set. After that the only exchanges added are run-status GETs to the known
  servers, in their order. When the result is a URL, the servers before some server \<open>s\<close>
  each failed (network error or non-2xx), \<open>s\<close> answered 2xx, no later server was asked,
  the URL is \<open>https://\<close> followed by the domain of \<open>s\<close>, the run-to-server map is the
  old one with the run set to that URL, and any further call for the same run returns that
  URL with no exchange at all. When the result is a failure, every known server was asked
  and failed, the failure is "run not found on any server", and the map is unchanged.
\<close>

theorem getServerUrlForRun_miss:
  assumes miss: "map_get (runServerMap st) runId = None"
    and cfg: "config st = Some c"
    and hdrs: "hdrs = [(''Authorization'', ''Bearer '' @ access_token c)]"
    and answer: "fr = fst (io_fetch (io :: 'w io) (discovery_get (citizenAuthUrl st) c) (world env))"
    and run: "getServerUrlForRun io runId st env = (res, st', env')"
  shows
    "case known_after_refresh st fr of
       Inl e \<Rightarrow>
         res = Inl e \<and> st' = st
         \<and> exchanges env' = log_after_refresh st c fr (exchanges env)
     | Inr known \<Rightarrow>
         servers st' = known \<and> appServerMap st' = appServerMap st \<and>
         (case res of
            Inr url \<Rightarrow>
              (\<exists>pre s post frs fr'.
                  known = pre @ s # post \<and> length frs = length pre
                \<and> exchanges env' = log_after_refresh st c fr (exchanges env)
                                      @ probe_trace runId hdrs (pre @ [s]) (frs @ [fr'])
                \<and> (\<forall>f\<in>set frs. \<not> responded_2xx f) \<and> responded_2xx fr'
                \<and> url = ''https://'' @ domain s
                \<and> runServerMap st' = map_set (runServerMap st) (JStr runId) url
                \<and> (\<forall>(io2 :: 'w io) env2.
                       getServerUrlForRun io2 runId st' env2 = (Inr url, st', env2)))
          | Inl e \<Rightarrow>
              (\<exists>frs. length frs = length known
                \<and> exchanges env' = log_after_refresh st c fr (exchanges env)
                                      @ probe_trace runId hdrs known frs
                \<and> (\<forall>f\<in>set frs. \<not> responded_2xx f)
                \<and> e = Thrown (RunNotFound runId)
                \<and> runServerMap st' = runServerMap st))"
proof (cases "servers st = []")
  case False
  then have k: "known_after_refresh st fr = Inr (servers st)"
    and l: "log_after_refresh st c fr (exchanges env) = exchanges env"
    by (simp_all add: known_after_refresh_def log_after_refresh_def)
  have "(servers st \<noteq> [] \<and> servers st = servers st \<and> env = env)
        \<or> (servers st = [] \<and> fetchServers io st env = (Inr (servers st), env))"
    using False by simp
  from getServerUrlForRun_probes [OF miss cfg this run hdrs]
  show ?thesis unfolding k l by simp
next
  case True
  from fetchServers_log [OF cfg answer] obtain env1 where
    f: "fetchServers io st env = (discovery_answer fr, env1)"
    and ex: "exchanges env1 = exchanges env @ [(discovery_get (citizenAuthUrl st) c, fr)]"
    by blast
  have k: "known_after_refresh st fr = discovery_answer fr"
    and l: "log_after_refresh st c fr (exchanges env) = exchanges env1"
    using True ex by (simp_all add: known_after_refresh_def log_after_refresh_def)
  show ?thesis
  proof (cases "discovery_answer fr")
    case (Inl e)
    with f have "fetchServers io st env = (Inl e, env1)" by simp
    from getServerUrlForRun_discovery_fails [OF miss True this] run
    show ?thesis unfolding k l Inl by simp
  next
    case (Inr known)
    with f True have "(servers st \<noteq> [] \<and> known = servers st \<and> env1 = env)
        \<or> (servers st = [] \<and> fetchServers io st env = (Inr known, env1))"
      by simp
    from getServerUrlForRun_probes [OF miss cfg this run hdrs]
    show ?thesis unfolding k l Inr by simp
  qed
qed


theorem getServerUrlForRun_miss_witness:
  "map_get (runServerMap undiscovered_state) ''r7'' = None
   \<and> servers undiscovered_state = []
   \<and> fst (getServerUrlForRun (script_io discovering_host) ''r7'' undiscovered_state start_env)
       = Inr ''https://s2.example.com''
   \<and> map (\<lambda>x. (req_method (fst x), req_url (fst x), status_of (snd x)))
        (exchanges (snd (snd (getServerUrlForRun (script_io discovering_host) ''r7''
                                 undiscovered_state start_env))))
       = [(GET, ''https://auth.example.com/api/v1/servers?org_id=o1'', Some 200),
          (GET, ''https://s1.example.com/api/v1/citizen/runs/r7'', Some 404),
          (GET, ''https://s2.example.com/api/v1/citizen/runs/r7'', Some 200)]
   \<and> servers (fst (snd (getServerUrlForRun (script_io discovering_host) ''r7''
                            undiscovered_state start_env)))
       = [server_a, server_b, server_c]
   \<and> runServerMap (fst (snd (getServerUrlForRun (script_io discovering_host) ''r7''
                                 undiscovered_state start_env)))
       = [(JStr ''r7'', ''https://s2.example.com'')]
   \<and> getServerUrlForRun failing_io ''r7''
        (fst (snd (getServerUrlForRun (script_io discovering_host) ''r7''
                     undiscovered_state start_env))) start_env
       = (Inr ''https://s2.example.com'',
          fst (snd (getServerUrlForRun (script_io discovering_host) ''r7''
                      undiscovered_state start_env)),
          start_env)
   \<and> map (\<lambda>x. (req_method (fst x), req_url (fst x), status_of (snd x)))
        (exchanges (snd (snd (getServerUrlForRun (script_io run_host) ''r7'' cold_state start_env))))
       = [(GET, ''https://s1.example.com/api/v1/citizen/runs/r7'', Some 404),
          (GET, ''https://s2.example.com/api/v1/citizen/runs/r7'', Some 200)]"
proof -
  let ?io = "script_io discovering_host"
  let ?run = "getServerUrlForRun ?io ''r7'' undiscovered_state start_env"
  let ?fr = "fst (io_fetch ?io (discovery_get (citizenAuthUrl undiscovered_state) example_config)
                    (world start_env))"
  have miss: "map_get (runServerMap undiscovered_state) ''r7'' = None"
    and cfg: "config undiscovered_state = Some example_config"
    and emp: "servers undiscovered_state = []"
    by (simp_all add: map_get_def undiscovered_state_def)
  have known: "known_after_refresh undiscovered_state ?fr = Inr [server_a, server_b, server_c]"
    by (simp add: known_after_refresh_def undiscovered_state_def discovery_answer_def
          discovery_get_def script_io_def discovering_host_def example_config_def
          json_response_def ok_def start_env_def servers_body_def servers_of_body_def
          decode_server_def server_a_def server_b_def server_c_def)
  have res: "fst ?run = Inr ''https://s2.example.com''"
    and tr: "map (\<lambda>x. (req_method (fst x), req_url (fst x), status_of (snd x)))
               (exchanges (snd (snd ?run)))
       = [(GET, ''https://auth.example.com/api/v1/servers?org_id=o1'', Some 200),
          (GET, ''https://s1.example.com/api/v1/citizen/runs/r7'', Some 404),
          (GET, ''https://s2.example.com/api/v1/citizen/runs/r7'', Some 200)]"
    by (simp_all add: getServerUrlForRun_def map_get_def undiscovered_state_def
          fetchServers_def servers_request_def response_json_def servers_body_def
          servers_of_body_def decode_server_def bearer_headers_def
          example_config_def server_base_def status_of_def
          run_request_def script_io_def discovering_host_def run_host_def start_env_def
          do_fetch_def json_response_def ok_def)
  have tr2: "map (\<lambda>x. (req_method (fst x), req_url (fst x), status_of (snd x)))
        (exchanges (snd (snd (getServerUrlForRun (script_io run_host) ''r7'' cold_state start_env))))
       = [(GET, ''https://s1.example.com/api/v1/citizen/runs/r7'', Some 404),
          (GET, ''https://s2.example.com/api/v1/citizen/runs/r7'', Some 200)]"
    by (simp add: getServerUrlForRun_def map_get_def cold_state_def bearer_headers_def
          example_config_def server_a_def server_b_def server_c_def server_base_def
          run_request_def script_io_def run_host_def start_env_def do_fetch_def
          json_response_def ok_def status_of_def)
  obtain st' env' where run: "?run = (Inr ''https://s2.example.com'', st', env')"
    using res by (cases ?run) auto
  from getServerUrlForRun_miss [OF miss cfg refl refl run]
  have srv: "servers st' = [server_a, server_b, server_c]"
    and m: "runServerMap st'
             = map_set (runServerMap undiscovered_state) (JStr ''r7'') ''https://s2.example.com''"
    and again: "\<forall>(io2 :: nat io) env2. getServerUrlForRun io2 ''r7'' st' env2
                   = (Inr ''https://s2.example.com'', st', env2)"
    unfolding known by auto
  have m': "runServerMap st' = [(JStr ''r7'', ''https://s2.example.com'')]"
    using m by (simp add: map_set_def undiscovered_state_def)
  from again have "getServerUrlForRun failing_io ''r7'' st' start_env
                     = (Inr ''https://s2.example.com'', st', start_env)"
    by blast
  then show ?thesis
    using miss emp res tr tr2 srv m' unfolding run by simp
qed

section \<open>Routing cache: refreshing the app listing\<close>

lemma map_of_map_set_other: "k' \<noteq> k \<Longrightarrow> map_of (map_set m k v) k' = map_of m k'"
  by (auto simp: map_set_def update_conv' map_add_def split: option.splits)

lemma mapApps_changes:
  "mapApps server xs m = (eo, m') \<Longrightarrow> map_of m' k \<noteq> map_of m k \<Longrightarrow>
     k \<in> set (List.map_filter (\<lambda>a. case appNameOf a of Inl e \<Rightarrow> None | Inr n \<Rightarrow> n) xs)"
proof (induction xs arbitrary: m)
  case Nil
  then show ?case by simp
next
  case (Cons a xs)
  show ?case
  proof (cases "appNameOf a")
    case (Inl e)
    with Cons.prems show ?thesis by simp
  next
    case (Inr n)
    show ?thesis
    proof (cases n)
      case None
      with Inr Cons show ?thesis by (auto simp: List.map_filter_simps)
    next
      case (Some appName)
      show ?thesis
      proof (cases "truthy appName")
        case False
        with Inr Some Cons show ?thesis by (auto simp: List.map_filter_simps)
      next
        case True
        let ?m1 = "map_set m appName
                    \<lparr>app_name = appName, app_status = appStatusOf a,
                     server_url = server_base server, server_slug = slug server\<rparr>"
        have rest: "mapApps server xs ?m1 = (eo, m')"
          using Cons.prems(1) Inr Some True by simp
        show ?thesis
        proof (cases "k = appName")
          case True
          with Inr Some show ?thesis by (simp add: List.map_filter_simps)
        next
          case False
          then have "map_of ?m1 k = map_of m k" by (rule map_of_map_set_other)
          with Cons.prems(2) have "map_of m' k \<noteq> map_of ?m1 k" by simp
          from Cons.IH [OF rest this] Inr Some show ?thesis
            by (simp add: List.map_filter_simps)
        qed
      qed
    qed
  qed
qed

lemma appNameOf_throws: "appNameOf a = Inl e \<Longrightarrow> a = JNull"
  by (cases a) (auto simp: appNameOf_def split: sum.splits)

lemma mapApps_no_null: "JNull \<notin> set xs \<Longrightarrow> fst (mapApps server xs m) = None"
proof (induction xs arbitrary: m)
  case Nil
  then show ?case by simp
next
  case (Cons a xs)
  then show ?case
    by (cases "appNameOf a") (auto dest: appNameOf_throws split: option.splits)
qed

lemma listAppsOn_frame:
  "listAppsOn io server st env = (st', g, env') \<Longrightarrow>
     config st' = config st \<and> servers st' = servers st \<and> runServerMap st' = runServerMap st
     \<and> citizenAuthUrl st' = citizenAuthUrl st"
  by (auto simp: listAppsOn_def split: sum.splits prod.splits fetch_result.splits if_splits
        option.splits)

lemma listAppsOn_names:
  assumes "listAppsOn io server st env = (st', g, env')"
  shows "\<exists>new. exchanges env' = exchanges env @ new
     \<and> (\<forall>k. map_of (appServerMap st') k \<noteq> map_of (appServerMap st) k
            \<longrightarrow> k \<in> set (concat (map (listed_names \<circ> snd) new)))"
proof (cases "bearer_headers st")
  case (Inl e)
  with assms have "exchanges env' = exchanges env @ [] \<and> appServerMap st' = appServerMap st"
    by (auto simp: listAppsOn_def log_line_def)
  then show ?thesis by fastforce
next
  case (Inr hdrs)
  obtain fr env1 where f: "do_fetch io (apps_request server hdrs) env = (fr, env1)"
    by (cases "do_fetch io (apps_request server hdrs) env")
  have ex1: "exchanges env1 = exchanges env @ [(apps_request server hdrs, fr)]"
    using do_fetch_exchanges [OF f] by simp
  have ex': "exchanges env' = exchanges env1"
    using assms Inr f
    by (auto simp: listAppsOn_def log_line_def split: sum.splits prod.splits fetch_result.splits
          if_splits option.splits)
  have "k \<in> set (listed_names fr)"
    if ch: "map_of (appServerMap st') k \<noteq> map_of (appServerMap st) k" for k
  proof -
    from ch assms Inr f obtain r data xs eo where
      r: "fr = Responded r" "ok r" "body_json r = Some data" "appsListOf data = Inr xs"
         "mapApps server xs (appServerMap st) = (eo, appServerMap st')"
      by (auto simp: listAppsOn_def log_line_def response_json_def
            split: sum.splits prod.splits fetch_result.splits if_splits option.splits)
    from mapApps_changes [OF r(5) ch] r(1-4) show ?thesis
      by (simp add: listed_names_def)
  qed
  then have "exchanges env' = exchanges env @ [(apps_request server hdrs, fr)]
     \<and> (\<forall>k. map_of (appServerMap st') k \<noteq> map_of (appServerMap st) k
            \<longrightarrow> k \<in> set (concat (map (listed_names \<circ> snd) [(apps_request server hdrs, fr)])))"
    using ex1 ex' by simp
  then show ?thesis by blast
qed

lemma listAppsLoop_names:
  "listAppsLoop io srvs st acc env = (st', acc', env') \<Longrightarrow>
     \<exists>new. exchanges env' = exchanges env @ new
     \<and> (\<forall>k. map_of (appServerMap st') k \<noteq> map_of (appServerMap st) k
            \<longrightarrow> k \<in> set (concat (map (listed_names \<circ> snd) new)))"
proof (induction srvs arbitrary: st acc env)
  case Nil
  then have "exchanges env' = exchanges env @ [] \<and> appServerMap st' = appServerMap st" by simp
  then show ?case by fastforce
next
  case (Cons a srvs)
  obtain st1 g env1 where one: "listAppsOn io a st env = (st1, g, env1)"
    by (cases "listAppsOn io a st env")
  obtain acc1 where rest: "listAppsLoop io srvs st1 acc1 env1 = (st', acc', env')"
    using Cons.prems one by (cases g) auto
  from listAppsOn_names [OF one] obtain new1 where
    n1: "exchanges env1 = exchanges env @ new1"
        "\<forall>k. map_of (appServerMap st1) k \<noteq> map_of (appServerMap st) k
            \<longrightarrow> k \<in> set (concat (map (listed_names \<circ> snd) new1))"
    by blast
  from Cons.IH [OF rest] obtain new2 where
    n2: "exchanges env' = exchanges env1 @ new2"
        "\<forall>k. map_of (appServerMap st') k \<noteq> map_of (appServerMap st1) k
            \<longrightarrow> k \<in> set (concat (map (listed_names \<circ> snd) new2))"
    by blast
  have "k \<in> set (concat (map (listed_names \<circ> snd) (new1 @ new2)))"
    if ch: "map_of (appServerMap st') k \<noteq> map_of (appServerMap st) k" for k
  proof (cases "map_of (appServerMap st1) k = map_of (appServerMap st) k")
    case True
    with ch n2(2) show ?thesis by simp
  next
    case False
    with n1(2) show ?thesis by simp
  qed
  then have "exchanges env' = exchanges env @ (new1 @ new2)
     \<and> (\<forall>k. map_of (appServerMap st') k \<noteq> map_of (appServerMap st) k
            \<longrightarrow> k \<in> set (concat (map (listed_names \<circ> snd) (new1 @ new2))))"
    using n1(1) n2(1) by simp
  then show ?case by blast
qed

text \<open>
  C3: take two successive executions of \<open>handleListApps\<close>, the second over a non-empty
  server set (the world may change in between). The second execution gives the very
  result, state and surroundings that it gives when the app-to-server map is empty at its
  start, so nothing of the first execution is merged in. Every name under which the map
  then has an entry is a name that an answer received during the second execution lists;
  hence an entry of the first execution whose name no such answer lists is absent.
\<close>

theorem handleListApps_replaces:
  assumes first: "handleListApps io st0 env0 = (r1, st1, env1)"
    and nonempty: "servers st1 \<noteq> []"
    and second: "handleListApps (io2 :: 'w io) st1 env1' = (r2, st2, env2)"
    and new: "new = drop (length (exchanges env1')) (exchanges env2)"
  shows "handleListApps io2 (st1\<lparr>appServerMap := []\<rparr>) env1' = (r2, st2, env2)
       \<and> (\<forall>name. map_get (appServerMap st2) name \<noteq> None
             \<longrightarrow> JStr name \<in> set (concat (map (listed_names \<circ> snd) new)))
       \<and> (\<forall>name. map_get (appServerMap st1) name \<noteq> None
                  \<and> JStr name \<notin> set (concat (map (listed_names \<circ> snd) new))
             \<longrightarrow> map_get (appServerMap st2) name = None)"
proof -
  let ?loop = "listAppsLoop io2 (servers st1) (st1\<lparr>appServerMap := []\<rparr>) [] env1'"
  obtain st2' acc env2' where loop: "?loop = (st2', acc, env2')" by (cases ?loop)
  have st2: "st2' = st2" and env2: "env2' = env2"
    using second nonempty loop by (auto simp: handleListApps_def split: if_splits)
  have same: "handleListApps io2 (st1\<lparr>appServerMap := []\<rparr>) env1' = (r2, st2, env2)"
    using second nonempty by (simp add: handleListApps_def)
  from listAppsLoop_names [OF loop] obtain ex where
    ex: "exchanges env2' = exchanges env1' @ ex"
        "\<forall>k. map_of (appServerMap st2') k \<noteq> map_of (appServerMap (st1\<lparr>appServerMap := []\<rparr>)) k
            \<longrightarrow> k \<in> set (concat (map (listed_names \<circ> snd) ex))"
    by blast
  have "new = ex" using new ex(1) env2 by simp
  with ex(2) st2 have names: "\<forall>name. map_get (appServerMap st2) name \<noteq> None
             \<longrightarrow> JStr name \<in> set (concat (map (listed_names \<circ> snd) new))"
    by (simp add: map_get_def)
  then have "\<forall>name. map_get (appServerMap st1) name \<noteq> None
                  \<and> JStr name \<notin> set (concat (map (listed_names \<circ> snd) new))
             \<longrightarrow> map_get (appServerMap st2) name = None"
    by blast
  with same names show ?thesis by blast
qed

theorem handleListApps_replaces_witness:
  "map fst (appServerMap (fst (snd round1))) = [JStr ''blog'', JStr ''shop'']
   \<and> servers (fst (snd round1)) \<noteq> []
   \<and> map fst (appServerMap (fst (snd round2))) = [JStr ''wiki'', JStr ''api'']
   \<and> map_get (appServerMap (fst (snd round1))) ''blog'' \<noteq> None
   \<and> map_get (appServerMap (fst (snd round2))) ''blog'' = None
   \<and> map_get (appServerMap (fst (snd round1))) ''shop'' \<noteq> None
   \<and> map_get (appServerMap (fst (snd round2))) ''shop'' = None"
proof -
  obtain r1 st1 env1 where one: "round1 = (r1, st1, env1)" by (cases round1)
  obtain r2 st2 env2 where two: "round2 = (r2, st2, env2)" by (cases round2)
  have first: "handleListApps (script_io two_rounds) two_servers_state start_env = (r1, st1, env1)"
    using one by (simp add: round1_def)
  have second: "handleListApps (script_io two_rounds) st1 env1 = (r2, st2, env2)"
    using two unfolding round2_def one by simp
  have m1: "map fst (appServerMap (fst (snd round1))) = [JStr ''blog'', JStr ''shop'']"
    by (simp add: round1_def listing_defs example_defs)
  have s1: "servers (fst (snd round1)) = [server_a, server_b]"
    by (simp add: round1_def listing_defs example_defs)
  have m2: "map fst (appServerMap (fst (snd round2))) = [JStr ''wiki'', JStr ''api'']"
    by (simp add: round2_def round1_def listing_defs example_defs)
  have g1: "map_get (appServerMap (fst (snd round1))) ''blog'' \<noteq> None"
    and g2: "map_get (appServerMap (fst (snd round1))) ''shop'' \<noteq> None"
    by (simp_all add: round1_def listing_defs example_defs map_get_def)
  have names: "concat (map (listed_names \<circ> snd)
                 (drop (length (exchanges (snd (snd round1)))) (exchanges (snd (snd round2)))))
               = [JStr ''wiki'', JStr ''api'']"
    by (simp add: round2_def round1_def listing_defs example_defs listed_names_def
          List.map_filter_simps)
  have ne: "servers st1 \<noteq> []" using s1 unfolding one by simp
  have absent: "\<forall>name. map_get (appServerMap st1) name \<noteq> None
                  \<and> JStr name \<notin> set (concat (map (listed_names \<circ> snd)
                                    (drop (length (exchanges env1)) (exchanges env2))))
             \<longrightarrow> map_get (appServerMap st2) name = None"
    using handleListApps_replaces [OF first ne second refl] by blast
  have g1': "map_get (appServerMap st1) ''blog'' \<noteq> None"
    and g2': "map_get (appServerMap st1) ''shop'' \<noteq> None"
    using g1 g2 unfolding one by simp_all
  have names': "concat (map (listed_names \<circ> snd)
                  (drop (length (exchanges env1)) (exchanges env2)))
                = [JStr ''wiki'', JStr ''api'']"
    using names unfolding one two by simp
  have nb: "JStr ''blog'' \<notin> set (concat (map (listed_names \<circ> snd)
                                    (drop (length (exchanges env1)) (exchanges env2))))"
    and ns: "JStr ''shop'' \<notin> set (concat (map (listed_names \<circ> snd)
                                    (drop (length (exchanges env1)) (exchanges env2))))"
    unfolding names' by simp_all
  have "map_get (appServerMap st2) ''blog'' = None"
    using absent g1' nb by blast
  moreover have "map_get (appServerMap st2) ''shop'' = None"
    using absent g2' ns by blast
  ultimately show ?thesis
    using m1 s1 m2 g1 g2 unfolding one two by simp
qed

lemma listing_of_2xx: "listing_of fr = Some xs \<Longrightarrow> responded_2xx fr"
  by (auto simp: listing_of_def responded_2xx_def split: fetch_result.splits if_splits)

lemma listAppsOn_outcome:
  assumes "bearer_headers st = Inr hdrs" and "listAppsOn io server st env = (st', g, env')"
  shows "\<exists>fr. exchanges env' = exchanges env @ [(apps_request server hdrs, fr)]
     \<and> (\<not> responded_2xx fr \<longrightarrow>
            st' = st \<and> g = None \<and> length (console env') = Suc (length (console env)))
     \<and> (\<forall>xs. listing_of fr = Some xs \<longrightarrow>
            st' = st\<lparr>appServerMap := snd (mapApps server xs (appServerMap st))\<rparr>
          \<and> g = Some \<lparr>group_slug = slug server, group_url = server_base server,
                      group_apps = appNames xs\<rparr>
          \<and> console env' = console env)"
proof -
  obtain fr env1 where f: "do_fetch io (apps_request server hdrs) env = (fr, env1)"
    by (cases "do_fetch io (apps_request server hdrs) env")
  have ex1: "exchanges env1 = exchanges env @ [(apps_request server hdrs, fr)]"
    and con1: "console env1 = console env"
    using do_fetch_exchanges [OF f] by simp_all
  have ex': "exchanges env' = exchanges env1"
    using assms f
    by (auto simp: listAppsOn_def log_line_def split: sum.splits prod.splits fetch_result.splits
          if_splits option.splits)
  have fail: "st' = st \<and> g = None \<and> length (console env') = Suc (length (console env))"
    if "\<not> responded_2xx fr"
    using that assms f con1
    by (cases fr) (auto simp: listAppsOn_def log_line_def responded_2xx_def)
  have succ: "st' = st\<lparr>appServerMap := snd (mapApps server xs (appServerMap st))\<rparr>
          \<and> g = Some \<lparr>group_slug = slug server, group_url = server_base server,
                      group_apps = appNames xs\<rparr>
          \<and> console env' = console env"
    if l: "listing_of fr = Some xs" for xs
  proof -
    from l obtain r data where
      r: "fr = Responded r" "ok r" "body_json r = Some data" "appsListOf data = Inr xs"
         "JNull \<notin> set xs"
      by (auto simp: listing_of_def split: fetch_result.splits if_splits option.splits sum.splits)
    obtain m where m: "mapApps server xs (appServerMap st) = (None, m)"
      using mapApps_no_null [OF r(5), of server "appServerMap st"]
      by (cases "mapApps server xs (appServerMap st)") auto
    show ?thesis
      using assms f r(1-4) m con1 by (simp add: listAppsOn_def response_json_def)
  qed
  show ?thesis using ex' ex1 fail succ by auto
qed

lemma totalApps_snoc: "totalApps (acc @ [g]) = totalApps acc + length (group_apps g)"
  by (simp add: totalApps_def)

lemma listAppsLoop_tolerant:
  assumes "bearer_headers st = Inr hdrs"
  shows "listAppsLoop io srvs st acc env = (st', acc', env') \<Longrightarrow>
    \<exists>frs. length frs = length srvs
      \<and> exchanges env' = exchanges env @ zip (map (\<lambda>s. apps_request s hdrs) srvs) frs
      \<and> ((\<forall>f\<in>set frs. \<not> responded_2xx f \<or> listing_of f \<noteq> None) \<longrightarrow>
           appServerMap st' = expected_map (zip srvs frs) (appServerMap st)
         \<and> totalApps acc' = totalApps acc + sum_list (map listed_count frs)
         \<and> length (console env')
             = length (console env) + length (filter (\<lambda>f. \<not> responded_2xx f) frs))"
  using assms
proof (induction srvs arbitrary: st acc env)
  case Nil
  then show ?case by simp
next
  case (Cons a srvs)
  obtain st1 g env1 where one: "listAppsOn io a st env = (st1, g, env1)"
    by (cases "listAppsOn io a st env")
  have bh1: "bearer_headers st1 = Inr hdrs"
    using listAppsOn_frame [OF one] Cons.prems(2) by (simp add: bearer_headers_def)
  let ?acc1 = "case g of None \<Rightarrow> acc | Some x \<Rightarrow> acc @ [x]"
  have rest: "listAppsLoop io srvs st1 ?acc1 env1 = (st', acc', env')"
    using Cons.prems(1) one by (cases g) auto
  from listAppsOn_outcome [OF Cons.prems(2) one] obtain fr where
    o: "exchanges env1 = exchanges env @ [(apps_request a hdrs, fr)]"
       "\<not> responded_2xx fr \<longrightarrow>
            st1 = st \<and> g = None \<and> length (console env1) = Suc (length (console env))"
       "\<forall>xs. listing_of fr = Some xs \<longrightarrow>
            st1 = st\<lparr>appServerMap := snd (mapApps a xs (appServerMap st))\<rparr>
          \<and> g = Some \<lparr>group_slug = slug a, group_url = server_base a, group_apps = appNames xs\<rparr>
          \<and> console env1 = console env"
    by blast
  from Cons.IH [OF rest bh1] obtain frs where
    ih: "length frs = length srvs"
        "exchanges env' = exchanges env1 @ zip (map (\<lambda>s. apps_request s hdrs) srvs) frs"
        "(\<forall>f\<in>set frs. \<not> responded_2xx f \<or> listing_of f \<noteq> None) \<longrightarrow>
           appServerMap st' = expected_map (zip srvs frs) (appServerMap st1)
         \<and> totalApps acc' = totalApps ?acc1 + sum_list (map listed_count frs)
         \<and> length (console env')
             = length (console env1) + length (filter (\<lambda>f. \<not> responded_2xx f) frs)"
    by blast
  have good: "appServerMap st' = expected_map (zip (a # srvs) (fr # frs)) (appServerMap st)
         \<and> totalApps acc' = totalApps acc + sum_list (map listed_count (fr # frs))
         \<and> length (console env')
             = length (console env) + length (filter (\<lambda>f. \<not> responded_2xx f) (fr # frs))"
    if all: "\<forall>f\<in>set (fr # frs). \<not> responded_2xx f \<or> listing_of f \<noteq> None"
  proof -
    from all ih(3) have r: "appServerMap st' = expected_map (zip srvs frs) (appServerMap st1)"
         "totalApps acc' = totalApps ?acc1 + sum_list (map listed_count frs)"
         "length (console env')
             = length (console env1) + length (filter (\<lambda>f. \<not> responded_2xx f) frs)"
      by simp_all
    show ?thesis
    proof (cases "listing_of fr")
      case None
      with all have nf: "\<not> responded_2xx fr" by simp
      with o(2) r None show ?thesis by (simp add: listed_count_def)
    next
      case (Some xs)
      then have "responded_2xx fr" by (rule listing_of_2xx)
      with o(3) r Some show ?thesis
        by (simp add: listed_count_def totalApps_snoc appNames_def)
    qed
  qed
  have "length (fr # frs) = length (a # srvs)
      \<and> exchanges env' = exchanges env @ zip (map (\<lambda>s. apps_request s hdrs) (a # srvs)) (fr # frs)"
    using ih(1,2) o(1) by simp
  with good show ?case by blast
qed

lemma listAppsLoop_frame:
  "listAppsLoop io srvs st acc env = (st', acc', env') \<Longrightarrow>
     config st' = config st \<and> servers st' = servers st \<and> runServerMap st' = runServerMap st
     \<and> citizenAuthUrl st' = citizenAuthUrl st"
proof (induction srvs arbitrary: st acc env)
  case Nil
  then show ?case by simp
next
  case (Cons a srvs)
  obtain st1 g env1 where one: "listAppsOn io a st env = (st1, g, env1)"
    by (cases "listAppsOn io a st env")
  obtain acc1 where rest: "listAppsLoop io srvs st1 acc1 env1 = (st', acc', env')"
    using Cons.prems one by (cases g) auto
  from Cons.IH [OF rest] listAppsOn_frame [OF one] show ?case by simp
qed

lemma keys_map_set: "fst ` set (map_set m k v) = insert k (fst ` set m)"
proof (cases "is_primitive k")
  case True
  have "set (map fst (AList.update k v m)) = insert k (set (map fst m))"
    by (auto simp: update_keys)
  then show ?thesis using True by (simp add: map_set_def)
next
  case False
  then show ?thesis by (simp add: map_set_def)
qed

lemma mapApps_keys:
  "JNull \<notin> set xs \<Longrightarrow>
     fst ` set (snd (mapApps server xs m))
       = fst ` set m
         \<union> {k \<in> set (List.map_filter (\<lambda>a. case appNameOf a of Inl e \<Rightarrow> None | Inr n \<Rightarrow> n) xs).
              truthy k}"
proof (induction xs arbitrary: m)
  case Nil
  then show ?case by (simp add: List.map_filter_simps)
next
  case (Cons a xs)
  then have nn: "JNull \<notin> set xs" and a: "a \<noteq> JNull" by auto
  obtain n where n: "appNameOf a = Inr n"
    using a appNameOf_throws by (cases "appNameOf a") auto
  show ?case
  proof (cases n)
    case None
    with n Cons.IH [OF nn] show ?thesis by (simp add: List.map_filter_simps)
  next
    case (Some k)
    show ?thesis
    proof (cases "truthy k")
      case True
      with n Some Cons.IH [OF nn] show ?thesis
        by (auto simp: List.map_filter_simps keys_map_set)
    next
      case False
      with n Some Cons.IH [OF nn] show ?thesis
        by (auto simp: List.map_filter_simps)
    qed
  qed
qed

lemma listed_names_listing:
  "listing_of f = Some xs \<Longrightarrow>
     listed_names f = List.map_filter (\<lambda>a. case appNameOf a of Inl e \<Rightarrow> None | Inr n \<Rightarrow> n) xs"
  by (auto simp: listing_of_def listed_names_def
        split: fetch_result.splits if_splits option.splits sum.splits)

lemma listed_names_failed: "\<not> responded_2xx f \<Longrightarrow> listed_names f = []"
  by (auto simp: listed_names_def responded_2xx_def split: fetch_result.splits)

lemma expected_map_keys:
  "length frs = length srvs \<Longrightarrow>
   \<forall>f\<in>set frs. \<not> responded_2xx f \<or> listing_of f \<noteq> None \<Longrightarrow>
     fst ` set (expected_map (zip srvs frs) m)
       = fst ` set m \<union> {k \<in> set (concat (map listed_names frs)). truthy k}"
proof (induction srvs arbitrary: frs m)
  case Nil
  then show ?case by simp
next
  case (Cons s srvs)
  then obtain f frs' where frs: "frs = f # frs'" "length frs' = length srvs"
    by (cases frs) auto
  have rest: "\<forall>f\<in>set frs'. \<not> responded_2xx f \<or> listing_of f \<noteq> None"
    using Cons.prems(2) frs by simp
  show ?case
  proof (cases "listing_of f")
    case None
    then have "\<not> responded_2xx f" using Cons.prems(2) frs by simp
    then have "listed_names f = []" by (rule listed_names_failed)
    with None frs Cons.IH [OF frs(2) rest, of m] show ?thesis by simp
  next
    case (Some xs)
    then have nn: "JNull \<notin> set xs"
      by (auto simp: listing_of_def
            split: fetch_result.splits if_splits option.splits sum.splits)
    from Some frs Cons.IH [OF frs(2) rest, of "snd (mapApps s xs m)"]
      mapApps_keys [OF nn, of s m] listed_names_listing [OF Some]
    show ?thesis by auto
  qed
qed

text \<open>
  C4: let \<open>handleListApps\<close> run over a non-empty server set with a bundle loaded, and let
  every app-listing call either fail (network error or non-2xx) or succeed. Then every
  server is asked, in order, whatever the earlier answers were; the operation does not
  fail; the count it reports is the sum, over the answers, of the number of apps listed,
  where a failed call counts zero; the app-to-server map is the one that the listings of
  the succeeding servers alone give, and its keys are exactly the truthy names that the
  answers of the succeeding servers list; and one line is logged for each failed call.
  With one failing server among N this is the sum over the other N-1.
\<close>

theorem handleListApps_partial_failure:
  assumes nonempty: "servers st \<noteq> []"
    and cfg: "config st = Some c"
    and hdrs: "hdrs = [(''Authorization'', ''Bearer '' @ access_token c)]"
    and run: "handleListApps io st env = (res, st', env')"
    and new: "new = drop (length (exchanges env)) (exchanges env')"
    and good: "\<forall>f\<in>set (map snd new). \<not> responded_2xx f \<or> listing_of f \<noteq> None"
  shows "map fst new = map (\<lambda>s. apps_request s hdrs) (servers st)
       \<and> reported_total res = Some (sum_list (map listed_count (map snd new)))
       \<and> (\<forall>f. \<not> responded_2xx f \<longrightarrow> listed_count f = 0)
       \<and> appServerMap st' = expected_map (zip (servers st) (map snd new)) []
       \<and> fst ` set (appServerMap st')
           = {k \<in> set (concat (map listed_names (map snd new))). truthy k}
       \<and> length (console env')
           = length (console env) + length (filter (\<lambda>f. \<not> responded_2xx f) (map snd new))
       \<and> servers st' = servers st \<and> runServerMap st' = runServerMap st"
proof -
  let ?st0 = "st\<lparr>appServerMap := []\<rparr>"
  let ?loop = "listAppsLoop io (servers st) ?st0 [] env"
  obtain st2 acc env2 where loop: "?loop = (st2, acc, env2)" by (cases ?loop)
  have st': "st' = st2" and env': "env' = env2"
    and res: "res = (if totalApps acc = 0 then Inr NoAppsFound
                     else Inr (AppsFound (totalApps acc) acc))"
    using run nonempty loop by (auto simp: handleListApps_def split: if_splits)
  have bh: "bearer_headers ?st0 = Inr hdrs"
    using cfg hdrs by (simp add: bearer_headers_def)
  from listAppsLoop_tolerant [OF bh loop] obtain frs where
    t: "length frs = length (servers st)"
       "exchanges env2 = exchanges env @ zip (map (\<lambda>s. apps_request s hdrs) (servers st)) frs"
       "(\<forall>f\<in>set frs. \<not> responded_2xx f \<or> listing_of f \<noteq> None) \<longrightarrow>
           appServerMap st2 = expected_map (zip (servers st) frs) (appServerMap ?st0)
         \<and> totalApps acc = totalApps [] + sum_list (map listed_count frs)
         \<and> length (console env2)
             = length (console env) + length (filter (\<lambda>f. \<not> responded_2xx f) frs)"
    by blast
  have new_eq: "new = zip (map (\<lambda>s. apps_request s hdrs) (servers st)) frs"
    using new t(2) env' by simp
  have answers: "map snd new = frs" and asked: "map fst new = map (\<lambda>s. apps_request s hdrs) (servers st)"
    using new_eq t(1) by simp_all
  from good answers t(3) have
    g: "appServerMap st2 = expected_map (zip (servers st) frs) []"
       "totalApps acc = sum_list (map listed_count frs)"
       "length (console env2)
          = length (console env) + length (filter (\<lambda>f. \<not> responded_2xx f) frs)"
    by (simp_all add: totalApps_def)
  have total: "reported_total res = Some (sum_list (map listed_count frs))"
    using res g(2) by (simp add: reported_total_def)
  have zero: "\<forall>f. \<not> responded_2xx f \<longrightarrow> listed_count f = 0"
    using listing_of_2xx by (fastforce simp: listed_count_def split: option.splits)
  have keys: "fst ` set (appServerMap st2) = {k \<in> set (concat (map listed_names frs)). truthy k}"
    using expected_map_keys [OF t(1), of "[]"] good answers g(1) by simp
  show ?thesis
    using asked total zero g(1,3) keys answers st' env' listAppsLoop_frame [OF loop] by simp
qed

theorem handleListApps_partial_failure_witness:
  "map (status_of \<circ> snd) (exchanges (snd (snd listing_one_down))) = [Some 200, Some 500, Some 200]
   \<and> reported_total (fst listing_one_down) = Some 3
   \<and> map fst (appServerMap (fst (snd listing_one_down))) = [JStr ''blog'', JStr ''shop'', JStr ''api'']
   \<and> map (server_url \<circ> snd) (appServerMap (fst (snd listing_one_down)))
       = [''https://s1.example.com'', ''https://s1.example.com'', ''https://s3.example.com'']
   \<and> console (snd (snd listing_one_down)) = [FailedToFetchApps ''s2'' 500]"
proof -
  obtain res st' env' where run: "listing_one_down = (res, st', env')" by (cases listing_one_down)
  have run': "handleListApps (script_io one_down) cold_state start_env = (res, st', env')"
    using run by (simp add: listing_one_down_def)
  have ne: "servers cold_state \<noteq> []" and cfg: "config cold_state = Some example_config"
    by (simp_all add: cold_state_def)
  have ex: "map (status_of \<circ> snd) (exchanges (snd (snd listing_one_down)))
              = [Some 200, Some 500, Some 200]"
    and con: "console (snd (snd listing_one_down)) = [FailedToFetchApps ''s2'' 500]"
    and keys: "map fst (appServerMap (fst (snd listing_one_down)))
                 = [JStr ''blog'', JStr ''shop'', JStr ''api'']"
    and urls: "map (server_url \<circ> snd) (appServerMap (fst (snd listing_one_down)))
       = [''https://s1.example.com'', ''https://s1.example.com'', ''https://s3.example.com'']"
    by (simp_all add: listing_one_down_def listing_defs example_defs status_of_def)
  have good: "\<forall>f\<in>set (map snd (drop (length (exchanges start_env)) (exchanges env'))).
                 \<not> responded_2xx f \<or> listing_of f \<noteq> None"
    using arg_cong [OF run [symmetric], of "\<lambda>x. exchanges (snd (snd x))"]
    by (simp add: listing_one_down_def listing_defs example_defs responded_2xx_def
          listing_of_def)
  have counts: "sum_list (map listed_count
                   (map snd (drop (length (exchanges start_env)) (exchanges env')))) = 3"
    using arg_cong [OF run [symmetric], of "\<lambda>x. exchanges (snd (snd x))"]
    by (simp add: listing_one_down_def listing_defs example_defs listed_count_def
          listing_of_def)
  have "reported_total res = Some 3"
    using handleListApps_partial_failure [OF ne cfg refl run' refl good] counts by simp
  then show ?thesis
    using ex con keys urls unfolding run by simp
qed

section \<open>Routing cache: the run-to-server map only grows\<close>

lemma runs_kept_refl: "runs_kept m m"
  by (simp add: runs_kept_def)

lemma runs_kept_trans: "runs_kept a b \<Longrightarrow> runs_kept b c \<Longrightarrow> runs_kept a c"
proof -
  assume ab: "runs_kept a b" and bc: "runs_kept b c"
  have "length (take (length a) (map fst b)) = length (map fst a)"
    using ab by (simp only: runs_kept_def)
  then have lab: "length a \<le> length b" by simp
  have "take (length a) (map fst c) = take (length a) (take (length b) (map fst c))"
    using lab by (simp add: min_def)
  also have "\<dots> = take (length a) (map fst b)" using bc by (simp add: runs_kept_def)
  also have "\<dots> = map fst a" using ab by (simp add: runs_kept_def)
  finally show ?thesis by (simp add: runs_kept_def)
qed

lemma runs_kept_map_set: "runs_kept m (map_set m k v)"
  by (simp add: runs_kept_def map_set_def update_keys)

lemma rememberRun_kept:
  "rememberRun result url st = Inr st' \<Longrightarrow>
     runs_kept (runServerMap st) (runServerMap st') \<and> config st' = config st
     \<and> servers st' = servers st \<and> appServerMap st' = appServerMap st"
  by (auto simp: rememberRun_def runs_kept_refl runs_kept_map_set
        split: sum.splits option.splits if_splits)

lemma rememberRuns_kept:
  "rememberRuns runs url st = (eo, st') \<Longrightarrow> runs_kept (runServerMap st) (runServerMap st')"
proof (induction runs arbitrary: st)
  case Nil
  then show ?case by (simp add: runs_kept_refl)
next
  case (Cons a runs)
  show ?case
  proof (cases "rememberRun a url st")
    case (Inl e)
    with Cons.prems show ?thesis by (simp add: runs_kept_refl)
  next
    case (Inr st1)
    with Cons.prems have "rememberRuns runs url st1 = (eo, st')" by simp
    from Cons.IH [OF this] rememberRun_kept [OF Inr] show ?thesis
      by (blast intro: runs_kept_trans)
  qed
qed

lemma handleListApps_frame:
  "handleListApps io st env = (res, st', env') \<Longrightarrow> runServerMap st' = runServerMap st"
proof -
  assume run: "handleListApps io st env = (res, st', env')"
  show ?thesis
  proof (cases "servers st = []")
    case True
    show ?thesis
    proof (cases "fetchServers io st env")
      case (Pair r env1)
      show ?thesis
      proof (cases r)
        case (Inl e)
        with run True Pair show ?thesis by (simp add: handleListApps_def)
      next
        case (Inr ss)
        let ?st1 = "st\<lparr>servers := ss\<rparr>"
        show ?thesis
        proof (cases "ss = []")
          case True
          with run \<open>servers st = []\<close> Pair Inr show ?thesis
            by (auto simp: handleListApps_def)
        next
          case False
          obtain st2 acc env2 where
            loop: "listAppsLoop io ss (?st1\<lparr>appServerMap := []\<rparr>) [] env1 = (st2, acc, env2)"
            by (cases "listAppsLoop io ss (?st1\<lparr>appServerMap := []\<rparr>) [] env1")
          have "st' = st2"
            using run \<open>servers st = []\<close> Pair Inr False loop
            by (auto simp: handleListApps_def split: if_splits)
          with listAppsLoop_frame [OF loop] show ?thesis by simp
        qed
      qed
    qed
  next
    case False
    obtain st2 acc env2 where
      loop: "listAppsLoop io (servers st) (st\<lparr>appServerMap := []\<rparr>) [] env = (st2, acc, env2)"
      by (cases "listAppsLoop io (servers st) (st\<lparr>appServerMap := []\<rparr>) [] env")
    have "st' = st2"
      using run False loop by (auto simp: handleListApps_def split: if_splits)
    with listAppsLoop_frame [OF loop] show ?thesis by simp
  qed
qed

lemma getServerUrlForApp_frame:
  "getServerUrlForApp io appName st env = (res, st', env') \<Longrightarrow>
     runServerMap st' = runServerMap st"
proof -
  assume run: "getServerUrlForApp io appName st env = (res, st', env')"
  show ?thesis
  proof (cases "map_get (appServerMap st) appName")
    case (Some a)
    with run show ?thesis by (simp add: getServerUrlForApp_def)
  next
    case None
    obtain r st1 env1 where l: "handleListApps io st env = (r, st1, env1)"
      by (cases "handleListApps io st env")
    have "st' = st1"
      using run None l by (auto simp: getServerUrlForApp_def split: sum.splits option.splits)
    with handleListApps_frame [OF l] show ?thesis by simp
  qed
qed

lemma probeServers_kept:
  "probeServers io runId srvs st env = (res, st', env') \<Longrightarrow>
     runs_kept (runServerMap st) (runServerMap st')
     \<and> (\<forall>k. k \<noteq> JStr runId \<longrightarrow> map_of (runServerMap st') k = map_of (runServerMap st) k)"
proof (induction srvs arbitrary: env)
  case Nil
  then show ?case by (simp add: runs_kept_refl)
next
  case (Cons a srvs)
  show ?case
  proof (cases "bearer_headers st")
    case (Inl e)
    with Cons show ?thesis by simp
  next
    case (Inr hdrs)
    obtain fr env1 where
      f: "do_fetch io (run_request (server_base a) runId hdrs) env = (fr, env1)"
      by (cases "do_fetch io (run_request (server_base a) runId hdrs) env")
    show ?thesis
    proof (cases fr)
      case Rejected
      with Cons Inr f show ?thesis by simp
    next
      case (Responded r)
      show ?thesis
      proof (cases "ok r")
        case True
        with Cons.prems Inr f Responded show ?thesis
          by (auto simp: runs_kept_map_set map_of_map_set_other)
      next
        case False
        with Cons Inr f Responded show ?thesis by simp
      qed
    qed
  qed
qed

lemma getServerUrlForRun_kept:
  assumes "getServerUrlForRun io runId st env = (res, st', env')"
  shows "runs_kept (runServerMap st) (runServerMap st')
     \<and> (\<forall>k u. map_of (runServerMap st) k = Some u \<and> u \<noteq> [] \<longrightarrow>
                map_of (runServerMap st') k = Some u)"
proof (cases "\<exists>u. map_get (runServerMap st) runId = Some u \<and> u \<noteq> []")
  case True
  then obtain u where "map_get (runServerMap st) runId = Some u" "u \<noteq> []" by blast
  with assms have "st' = st" by (simp add: getServerUrlForRun_def)
  then show ?thesis by (simp add: runs_kept_refl)
next
  case False
  then have miss: "(case map_get (runServerMap st) runId of
              Some cachedUrl \<Rightarrow> if cachedUrl \<noteq> [] then Some cachedUrl else None
            | None \<Rightarrow> None) = None"
    by (auto split: option.splits)
  have "\<exists>srvs st0 env0. runServerMap st0 = runServerMap st
          \<and> (probeServers io runId srvs st0 env0 = (res, st', env') \<or> st' = st)"
  proof (cases "servers st = []")
    case True
    obtain r env1 where fs: "fetchServers io st env = (r, env1)"
      by (cases "fetchServers io st env")
    show ?thesis
    proof (cases r)
      case (Inl e)
      with assms miss True fs have "st' = st" by (simp add: getServerUrlForRun_def)
      then show ?thesis by blast
    next
      case (Inr ss)
      with assms miss True fs
      have "probeServers io runId ss (st\<lparr>servers := ss\<rparr>) env1 = (res, st', env')"
        by (simp add: getServerUrlForRun_def)
      moreover have "runServerMap (st\<lparr>servers := ss\<rparr>) = runServerMap st" by simp
      ultimately show ?thesis by blast
    qed
  next
    case False
    with assms miss have "probeServers io runId (servers st) st env = (res, st', env')"
      by (simp add: getServerUrlForRun_def)
    then show ?thesis by blast
  qed
  then obtain srvs st0 env0 where
    p: "runServerMap st0 = runServerMap st"
       "probeServers io runId srvs st0 env0 = (res, st', env') \<or> st' = st"
    by blast
  from p(2) show ?thesis
  proof
    assume "st' = st"
    then show ?thesis by (simp add: runs_kept_refl)
  next
    assume pr: "probeServers io runId srvs st0 env0 = (res, st', env')"
    have "map_of (runServerMap st') k = Some u"
      if ku: "map_of (runServerMap st) k = Some u" "u \<noteq> []" for k u
    proof -
      have "k \<noteq> JStr runId"
        using ku \<open>\<not> (\<exists>u. map_get (runServerMap st) runId = Some u \<and> u \<noteq> [])\<close>
        by (auto simp: map_get_def)
      with probeServers_kept [OF pr] p(1) ku(1) show ?thesis by simp
    qed
    with probeServers_kept [OF pr] p(1) show ?thesis by simp
  qed
qed

lemma handleGetAppInfo_frame:
  "handleGetAppInfo io appName st env = (res, st', env') \<Longrightarrow>
     runServerMap st' = runServerMap st"
  by (auto simp: handleGetAppInfo_def dest: getServerUrlForApp_frame
        split: prod.splits sum.splits)

lemma handleOpenAppUrl_frame:
  "handleOpenAppUrl io appName st env = (res, st', env') \<Longrightarrow>
     runServerMap st' = runServerMap st"
  by (auto simp: handleOpenAppUrl_def dest: getServerUrlForApp_frame
        split: prod.splits sum.splits option.splits bool.splits)

lemma handleListServers_frame:
  "handleListServers io st env = (res, st', env') \<Longrightarrow> runServerMap st' = runServerMap st"
  by (auto simp: handleListServers_def Let_def split: prod.splits sum.splits if_splits)

lemma runs_kept_same: "m' = m \<Longrightarrow> runs_kept m m'"
  by (simp add: runs_kept_refl)

lemma handleDeployFromGit_kept:
  assumes "handleDeployFromGit io args st env = (res, st', env')"
  shows "runs_kept (runServerMap st) (runServerMap st')"
proof -
  obtain r st1 env1 where g: "getServerUrlForApp io (git_app_name args) st env = (r, st1, env1)"
    by (cases "getServerUrlForApp io (git_app_name args) st env")
  note same = getServerUrlForApp_frame [OF g]
  have "st' = st1 \<or> (\<exists>result url. rememberRun result url st1 = Inr st')"
    using assms g by (auto simp: handleDeployFromGit_def split: prod.splits sum.splits)
  then show ?thesis
  proof
    assume "st' = st1"
    with same show ?thesis by (simp add: runs_kept_refl)
  next
    assume "\<exists>result url. rememberRun result url st1 = Inr st'"
    then obtain result url where rr: "rememberRun result url st1 = Inr st'" by blast
    from rememberRun_kept [OF rr] same show ?thesis by simp
  qed
qed

lemma uploadAndDeploy_kept:
  assumes "uploadAndDeploy io args url tarPath st env = (res, st', env')"
  shows "runs_kept (runServerMap st) (runServerMap st')"
proof -
  have "st' = st \<or> (\<exists>result. rememberRun result url st = Inr st')"
    using assms
    by (auto simp: uploadAndDeploy_def split: prod.splits sum.splits option.splits)
  then show ?thesis
  proof
    assume "st' = st"
    then show ?thesis by (simp add: runs_kept_refl)
  next
    assume "\<exists>result. rememberRun result url st = Inr st'"
    then obtain result where rr: "rememberRun result url st = Inr st'" by blast
    from rememberRun_kept [OF rr] show ?thesis by simp
  qed
qed

lemma handleDeployFromLocal_kept:
  assumes "handleDeployFromLocal io args st env = (res, st', env')"
  shows "runs_kept (runServerMap st) (runServerMap st')"
proof -
  obtain r st1 env1 where g: "getServerUrlForApp io (local_app_name args) st env = (r, st1, env1)"
    by (cases "getServerUrlForApp io (local_app_name args) st env")
  note same = getServerUrlForApp_frame [OF g]
  have "st' = st1 \<or> (\<exists>url tarPath env2 out env3.
            uploadAndDeploy io args url tarPath st1 env2 = (out, st', env3))"
    using assms g
    by (auto simp: handleDeployFromLocal_def
          split: prod.splits sum.splits option.splits bool.splits)
  then show ?thesis
  proof
    assume "st' = st1"
    with same show ?thesis by (simp add: runs_kept_refl)
  next
    assume "\<exists>url tarPath env2 out env3.
            uploadAndDeploy io args url tarPath st1 env2 = (out, st', env3)"
    then obtain url tarPath env2 out env3 where
      u: "uploadAndDeploy io args url tarPath st1 env2 = (out, st', env3)" by blast
    from uploadAndDeploy_kept [OF u] same show ?thesis by simp
  qed
qed

lemma handleListDeploymentRuns_kept:
  assumes "handleListDeploymentRuns io appName st env = (res, st', env')"
  shows "runs_kept (runServerMap st) (runServerMap st')"
proof -
  obtain r st1 env1 where g: "getServerUrlForApp io appName st env = (r, st1, env1)"
    by (cases "getServerUrlForApp io appName st env")
  note same = getServerUrlForApp_frame [OF g]
  have "st' = st1 \<or> (\<exists>runs url eo. rememberRuns runs url st1 = (eo, st'))"
    using assms g
    by (auto simp: handleListDeploymentRuns_def
          split: prod.splits sum.splits option.splits json.splits)
  then show ?thesis
  proof
    assume "st' = st1"
    with same show ?thesis by (simp add: runs_kept_refl)
  next
    assume "\<exists>runs url eo. rememberRuns runs url st1 = (eo, st')"
    then obtain runs url eo where rr: "rememberRuns runs url st1 = (eo, st')" by blast
    from rememberRuns_kept [OF rr] same show ?thesis by simp
  qed
qed

lemma handleGetDeploymentStatus_kept:
  "handleGetDeploymentStatus io runId st env = (res, st', env') \<Longrightarrow>
     runs_kept (runServerMap st) (runServerMap st')
     \<and> (\<forall>k u. map_of (runServerMap st) k = Some u \<and> u \<noteq> [] \<longrightarrow>
                map_of (runServerMap st') k = Some u)"
proof -
  assume run: "handleGetDeploymentStatus io runId st env = (res, st', env')"
  obtain r st1 env1 where g: "getServerUrlForRun io runId st env = (r, st1, env1)"
    by (cases "getServerUrlForRun io runId st env")
  have "st' = st1"
    using run g by (auto simp: handleGetDeploymentStatus_def split: prod.splits sum.splits)
  with getServerUrlForRun_kept [OF g] show ?thesis by simp
qed

lemma ensureAuth_frame:
  "ensureAuth io st env = (res, st', env') \<Longrightarrow> runServerMap st' = runServerMap st"
  by (auto simp: ensureAuth_def split: option.splits prod.splits)

lemma authorized_rel:
  assumes run: "authorized io h st env = (res, st', env')"
    and refl: "\<And>m. Q m m"
    and h: "\<And>s e r s' e'. h s e = (r, s', e') \<Longrightarrow> Q (runServerMap s) (runServerMap s')"
  shows "Q (runServerMap st) (runServerMap st')"
proof -
  obtain r st1 env1 where e: "ensureAuth io st env = (r, st1, env1)"
    by (cases "ensureAuth io st env")
  note same = ensureAuth_frame [OF e]
  show ?thesis
  proof (cases r)
    case (Inl x)
    with run e have "st' = st1" by (simp add: authorized_def)
    with same refl show ?thesis by simp
  next
    case (Inr u)
    with run e have "h st1 env1 = (res, st', env')" by (simp add: authorized_def)
    from h [OF this] same show ?thesis by simp
  qed
qed

lemma dispatch_same:
  assumes run: "dispatch io call st env = (res, st', env')"
    and quiet: "case call of
                  Authenticate \<Rightarrow> False | DeployFromGit a \<Rightarrow> False | DeployFromLocal a \<Rightarrow> False
                | GetDeploymentStatus r \<Rightarrow> False | ListDeploymentRuns a \<Rightarrow> False
                | _ \<Rightarrow> True"
  shows "runServerMap st' = runServerMap st"
proof (cases call)
  case GetInstructions
  with run show ?thesis
    by (auto simp: dispatch_def handleGetInstructions_def split: option.splits)
next
  case CheckAuthStatus
  with run show ?thesis
    by (auto simp: dispatch_def handleCheckAuthStatus_def split: prod.splits option.splits)
next
  case ListServers
  with run have a: "authorized io
            (\<lambda>s e. case handleListServers io s e of
                      (Inl x, s', e') \<Rightarrow> (Inl x, s', e')
                    | (Inr r, s', e') \<Rightarrow> (Inr (ServersListed r), s', e')) st env = (res, st', env')"
    by (simp add: dispatch_def)
  show ?thesis
    by (rule authorized_rel [OF a, where Q = "\<lambda>m m'. m' = m"])
       (auto dest: handleListServers_frame split: prod.splits sum.splits)
next
  case ListApps
  with run have a: "authorized io
            (\<lambda>s e. case handleListApps io s e of
                      (Inl x, s', e') \<Rightarrow> (Inl x, s', e')
                    | (Inr r, s', e') \<Rightarrow> (Inr (AppsListed r), s', e')) st env = (res, st', env')"
    by (simp add: dispatch_def)
  show ?thesis
    by (rule authorized_rel [OF a, where Q = "\<lambda>m m'. m' = m"])
       (auto dest: handleListApps_frame split: prod.splits sum.splits)
next
  case (GetAppInfo app)
  with run have a: "authorized io (handleGetAppInfo io app) st env = (res, st', env')"
    by (simp add: dispatch_def)
  show ?thesis
    by (rule authorized_rel [OF a, where Q = "\<lambda>m m'. m' = m"])
       (auto dest: handleGetAppInfo_frame)
next
  case (OpenAppUrl app)
  with run have a: "authorized io (handleOpenAppUrl io app) st env = (res, st', env')"
    by (simp add: dispatch_def)
  show ?thesis
    by (rule authorized_rel [OF a, where Q = "\<lambda>m m'. m' = m"])
       (auto dest: handleOpenAppUrl_frame)
next
  case (OtherTool name)
  with run show ?thesis by (simp add: dispatch_def)
qed (use quiet in simp_all)

lemma dispatch_kept:
  assumes run: "dispatch io call st env = (res, st', env')"
    and notauth: "\<not> (\<exists>c. res = Inr (Authenticated c))"
  shows "runs_kept (runServerMap st) (runServerMap st')"
proof (cases call)
  case Authenticate
  with run notauth show ?thesis
    by (auto simp: dispatch_def handleAuthenticate_def runs_kept_refl
          split: prod.splits sum.splits)
next
  case (DeployFromGit args)
  with run have a: "authorized io (handleDeployFromGit io args) st env = (res, st', env')"
    by (simp add: dispatch_def)
  show ?thesis
    by (rule authorized_rel [OF a, where Q = runs_kept])
       (auto simp: runs_kept_refl dest: handleDeployFromGit_kept)
next
  case (DeployFromLocal args)
  with run have a: "authorized io (handleDeployFromLocal io args) st env = (res, st', env')"
    by (simp add: dispatch_def)
  show ?thesis
    by (rule authorized_rel [OF a, where Q = runs_kept])
       (auto simp: runs_kept_refl dest: handleDeployFromLocal_kept)
next
  case (GetDeploymentStatus runId)
  with run have a: "authorized io (handleGetDeploymentStatus io runId) st env = (res, st', env')"
    by (simp add: dispatch_def)
  show ?thesis
    by (rule authorized_rel [OF a, where Q = runs_kept])
       (auto simp: runs_kept_refl dest: handleGetDeploymentStatus_kept)
next
  case (ListDeploymentRuns app)
  with run have a: "authorized io (handleListDeploymentRuns io app) st env = (res, st', env')"
    by (simp add: dispatch_def)
  show ?thesis
    by (rule authorized_rel [OF a, where Q = runs_kept])
       (auto simp: runs_kept_refl dest: handleListDeploymentRuns_kept)
qed (use dispatch_same [OF run] in \<open>simp_all add: runs_kept_refl\<close>)

lemma values_update: "snd ` set (AList.update k v m) \<subseteq> insert v (snd ` set m)"
  by (induction m) auto

lemma values_map_set: "snd ` set (map_set m k v) \<subseteq> insert v (snd ` set m)"
  using values_update [of k v m] by (auto simp: map_set_def)

lemma values_map_set_all:
  assumes "P v" and "\<forall>a\<in>snd ` set m. P a"
  shows "\<forall>a\<in>snd ` set (map_set m k v). P a"
proof
  fix a
  assume "a \<in> snd ` set (map_set m k v)"
  with values_map_set [of m k v] have "a = v \<or> a \<in> snd ` set m" by blast
  with assms show "P a" by blast
qed

lemma mapApps_urls:
  "mapApps server xs m = (eo, m') \<Longrightarrow> \<forall>a\<in>snd ` set m. server_url a \<noteq> [] \<Longrightarrow>
     \<forall>a\<in>snd ` set m'. server_url a \<noteq> []"
proof (induction xs arbitrary: m)
  case Nil
  then show ?case by simp
next
  case (Cons x xs)
  show ?case
  proof (cases "appNameOf x")
    case (Inl e)
    with Cons.prems show ?thesis by simp
  next
    case (Inr n)
    show ?thesis
    proof (cases "\<exists>k. n = Some k \<and> truthy k")
      case False
      with Inr Cons.prems have "mapApps server xs m = (eo, m')"
        by (cases n) auto
      from Cons.IH [OF this Cons.prems(2)] show ?thesis .
    next
      case True
      then obtain k where k: "n = Some k" "truthy k" by blast
      let ?v = "\<lparr>app_name = k, app_status = appStatusOf x,
                 server_url = server_base server, server_slug = slug server\<rparr>"
      have rest: "mapApps server xs (map_set m k ?v) = (eo, m')"
        using Inr k Cons.prems(1) by simp
      have "server_url ?v \<noteq> []" by (simp add: server_base_def)
      then have "\<forall>a\<in>snd ` set (map_set m k ?v). server_url a \<noteq> []"
        using Cons.prems(2) by (rule values_map_set_all)
      from Cons.IH [OF rest this] show ?thesis .
    qed
  qed
qed

lemma listAppsOn_urls:
  assumes "listAppsOn io server st env = (st', g, env')"
    and "\<forall>a\<in>snd ` set (appServerMap st). server_url a \<noteq> []"
  shows "\<forall>a\<in>snd ` set (appServerMap st'). server_url a \<noteq> []"
proof -
  have "appServerMap st' = appServerMap st
        \<or> (\<exists>xs eo. mapApps server xs (appServerMap st) = (eo, appServerMap st'))"
    using assms(1)
    by (auto simp: listAppsOn_def
          split: sum.splits prod.splits fetch_result.splits if_splits option.splits)
  then show ?thesis
  proof
    assume "appServerMap st' = appServerMap st"
    with assms(2) show ?thesis by simp
  next
    assume "\<exists>xs eo. mapApps server xs (appServerMap st) = (eo, appServerMap st')"
    then obtain xs eo where "mapApps server xs (appServerMap st) = (eo, appServerMap st')"
      by blast
    from mapApps_urls [OF this assms(2)] show ?thesis .
  qed
qed

lemma listAppsLoop_urls:
  "listAppsLoop io srvs st acc env = (st', acc', env') \<Longrightarrow>
   \<forall>a\<in>snd ` set (appServerMap st). server_url a \<noteq> [] \<Longrightarrow>
     \<forall>a\<in>snd ` set (appServerMap st'). server_url a \<noteq> []"
proof (induction srvs arbitrary: st acc env)
  case Nil
  then show ?case by simp
next
  case (Cons s srvs)
  obtain st1 g env1 where one: "listAppsOn io s st env = (st1, g, env1)"
    by (cases "listAppsOn io s st env")
  obtain acc1 where rest: "listAppsLoop io srvs st1 acc1 env1 = (st', acc', env')"
    using Cons.prems(1) one by (cases g) auto
  from Cons.IH [OF rest listAppsOn_urls [OF one Cons.prems(2)]] show ?case .
qed

lemma handleListApps_urls:
  assumes run: "handleListApps io st env = (res, st', env')" and inv: "urls_nonempty st"
  shows "urls_nonempty st'"
proof -
  have "(appServerMap st' = appServerMap st)
        \<or> (\<exists>srvs st0 acc env0. appServerMap st0 = []
              \<and> listAppsLoop io srvs st0 [] env0 = (st', acc, env'))"
    using run
    by (auto simp: handleListApps_def split: if_splits prod.splits sum.splits)
  then have "\<forall>a\<in>snd ` set (appServerMap st'). server_url a \<noteq> []"
  proof
    assume "appServerMap st' = appServerMap st"
    with inv show ?thesis by (simp add: urls_nonempty_def)
  next
    assume "\<exists>srvs st0 acc env0. appServerMap st0 = []
              \<and> listAppsLoop io srvs st0 [] env0 = (st', acc, env')"
    then obtain srvs st0 acc env0 where
      l: "appServerMap st0 = []" "listAppsLoop io srvs st0 [] env0 = (st', acc, env')"
      by blast
    from listAppsLoop_urls [OF l(2)] l(1) show ?thesis by simp
  qed
  with handleListApps_frame [OF run] inv show ?thesis by (simp add: urls_nonempty_def)
qed

lemma map_of_in_values: "map_of m k = Some v \<Longrightarrow> v \<in> snd ` set m"
  by (metis image_eqI map_of_SomeD snd_conv)

lemma getServerUrlForApp_urls:
  assumes run: "getServerUrlForApp io appName st env = (res, st', env')"
    and inv: "urls_nonempty st"
  shows "urls_nonempty st' \<and> (\<forall>url. res = Inr url \<longrightarrow> url \<noteq> [])"
proof -
  have inv': "urls_nonempty st'"
  proof (cases "map_get (appServerMap st) appName")
    case (Some a)
    with run inv show ?thesis by (simp add: getServerUrlForApp_def)
  next
    case None
    obtain r st1 env1 where l: "handleListApps io st env = (r, st1, env1)"
      by (cases "handleListApps io st env")
    have "st' = st1"
      using run None l by (auto simp: getServerUrlForApp_def split: sum.splits option.splits)
    with handleListApps_urls [OF l inv] show ?thesis by simp
  qed
  have "url \<noteq> []" if "res = Inr url" for url
  proof -
    from that run obtain a where "map_get (appServerMap st') appName = Some a" "url = server_url a"
      by (auto simp: getServerUrlForApp_def split: option.splits prod.splits sum.splits)
    with inv' map_of_in_values [of "appServerMap st'" "JStr appName" a] show ?thesis
      by (auto simp: urls_nonempty_def map_get_def)
  qed
  with inv' show ?thesis by blast
qed

lemma urls_nonempty_set_run:
  assumes "url \<noteq> []" and "urls_nonempty st"
  shows "urls_nonempty (st\<lparr>runServerMap := map_set (runServerMap st) k url\<rparr>)"
proof -
  have "\<forall>a\<in>snd ` set (map_set (runServerMap st) k url). a \<noteq> []"
    using assms by (intro values_map_set_all) (simp_all add: urls_nonempty_def)
  with assms(2) show ?thesis by (simp add: urls_nonempty_def)
qed

lemma rememberRun_urls:
  "rememberRun result url st = Inr st' \<Longrightarrow> url \<noteq> [] \<Longrightarrow> urls_nonempty st \<Longrightarrow>
     urls_nonempty st'"
  by (auto simp: rememberRun_def urls_nonempty_set_run
        split: sum.splits option.splits if_splits)

lemma rememberRuns_urls:
  "rememberRuns runs url st = (eo, st') \<Longrightarrow> url \<noteq> [] \<Longrightarrow> urls_nonempty st \<Longrightarrow>
     urls_nonempty st'"
proof (induction runs arbitrary: st)
  case Nil
  then show ?case by simp
next
  case (Cons a runs)
  show ?case
  proof (cases "rememberRun a url st")
    case (Inl e)
    with Cons.prems show ?thesis by simp
  next
    case (Inr st1)
    with Cons.prems have "rememberRuns runs url st1 = (eo, st')" by simp
    from Cons.IH [OF this Cons.prems(2) rememberRun_urls [OF Inr Cons.prems(2,3)]]
    show ?thesis .
  qed
qed

lemma probeServers_urls:
  "probeServers io runId srvs st env = (res, st', env') \<Longrightarrow> urls_nonempty st \<Longrightarrow>
     urls_nonempty st'"
proof (induction srvs arbitrary: env)
  case Nil
  then show ?case by simp
next
  case (Cons a srvs)
  show ?case
  proof (cases "bearer_headers st")
    case (Inl e)
    with Cons show ?thesis by simp
  next
    case (Inr hdrs)
    obtain fr env1 where
      f: "do_fetch io (run_request (server_base a) runId hdrs) env = (fr, env1)"
      by (cases "do_fetch io (run_request (server_base a) runId hdrs) env")
    show ?thesis
    proof (cases fr)
      case Rejected
      with Cons Inr f show ?thesis by simp
    next
      case (Responded r)
      show ?thesis
      proof (cases "ok r")
        case True
        with Cons.prems Inr f Responded
        have "st' = st\<lparr>runServerMap := map_set (runServerMap st) (JStr runId) (server_base a)\<rparr>"
          by auto
        moreover have "server_base a \<noteq> []" by (simp add: server_base_def)
        ultimately show ?thesis using Cons.prems(2) by (simp add: urls_nonempty_set_run)
      next
        case False
        with Cons Inr f Responded show ?thesis by simp
      qed
    qed
  qed
qed

lemma urls_nonempty_servers: "urls_nonempty (st\<lparr>servers := ss\<rparr>) = urls_nonempty st"
  by (simp add: urls_nonempty_def)

lemma getServerUrlForRun_urls:
  assumes run: "getServerUrlForRun io runId st env = (res, st', env')"
    and inv: "urls_nonempty st"
  shows "urls_nonempty st'"
proof -
  have "st' = st \<or> (\<exists>srvs st0 env0. urls_nonempty st0
          \<and> probeServers io runId srvs st0 env0 = (res, st', env'))"
    using run inv urls_nonempty_servers
    by (auto simp: getServerUrlForRun_def split: option.splits if_splits prod.splits sum.splits)
  then show ?thesis
    using inv probeServers_urls by blast
qed


lemma urls_nonempty_config: "urls_nonempty (st\<lparr>config := c\<rparr>) = urls_nonempty st"
  by (simp add: urls_nonempty_def)

lemma handleGetAppInfo_urls:
  assumes "handleGetAppInfo io appName st env = (res, st', env')" and "urls_nonempty st"
  shows "urls_nonempty st'"
proof -
  obtain r st1 env1 where g: "getServerUrlForApp io appName st env = (r, st1, env1)"
    by (cases "getServerUrlForApp io appName st env")
  have "st' = st1"
    using assms(1) g by (auto simp: handleGetAppInfo_def split: prod.splits sum.splits)
  with getServerUrlForApp_urls [OF g assms(2)] show ?thesis by simp
qed

lemma handleOpenAppUrl_urls:
  assumes "handleOpenAppUrl io appName st env = (res, st', env')" and "urls_nonempty st"
  shows "urls_nonempty st'"
proof -
  obtain r st1 env1 where g: "getServerUrlForApp io appName st env = (r, st1, env1)"
    by (cases "getServerUrlForApp io appName st env")
  have "st' = st1"
    using assms(1) g
    by (auto simp: handleOpenAppUrl_def
          split: prod.splits sum.splits option.splits bool.splits)
  with getServerUrlForApp_urls [OF g assms(2)] show ?thesis by simp
qed

lemma handleListServers_urls:
  "handleListServers io st env = (res, st', env') \<Longrightarrow> urls_nonempty st \<Longrightarrow>
     urls_nonempty st'"
  by (auto simp: handleListServers_def Let_def urls_nonempty_servers
        split: prod.splits sum.splits if_splits)

lemma handleDeployFromGit_urls:
  assumes "handleDeployFromGit io args st env = (res, st', env')" and "urls_nonempty st"
  shows "urls_nonempty st'"
proof -
  obtain r st1 env1 where g: "getServerUrlForApp io (git_app_name args) st env = (r, st1, env1)"
    by (cases "getServerUrlForApp io (git_app_name args) st env")
  note inv1 = getServerUrlForApp_urls [OF g assms(2)]
  have "st' = st1 \<or> (\<exists>result url. r = Inr url \<and> rememberRun result url st1 = Inr st')"
    using assms(1) g by (auto simp: handleDeployFromGit_def split: prod.splits sum.splits)
  then show ?thesis
  proof
    assume "st' = st1"
    with inv1 show ?thesis by simp
  next
    assume "\<exists>result url. r = Inr url \<and> rememberRun result url st1 = Inr st'"
    then obtain result url where rr: "r = Inr url" "rememberRun result url st1 = Inr st'"
      by blast
    with inv1 have "url \<noteq> []" by simp
    from rememberRun_urls [OF rr(2) this] inv1 show ?thesis by simp
  qed
qed

lemma uploadAndDeploy_urls:
  assumes "uploadAndDeploy io args url tarPath st env = (res, st', env')"
    and "url \<noteq> []" and "urls_nonempty st"
  shows "urls_nonempty st'"
proof -
  have "st' = st \<or> (\<exists>result. rememberRun result url st = Inr st')"
    using assms(1)
    by (auto simp: uploadAndDeploy_def split: prod.splits sum.splits option.splits)
  then show ?thesis
    using assms(2,3) rememberRun_urls by blast
qed

lemma handleDeployFromLocal_urls:
  assumes "handleDeployFromLocal io args st env = (res, st', env')" and "urls_nonempty st"
  shows "urls_nonempty st'"
proof -
  obtain r st1 env1 where g: "getServerUrlForApp io (local_app_name args) st env = (r, st1, env1)"
    by (cases "getServerUrlForApp io (local_app_name args) st env")
  note inv1 = getServerUrlForApp_urls [OF g assms(2)]
  have "st' = st1 \<or> (\<exists>url tarPath env2 out env3. r = Inr url
            \<and> uploadAndDeploy io args url tarPath st1 env2 = (out, st', env3))"
    using assms(1) g
    by (auto simp: handleDeployFromLocal_def
          split: prod.splits sum.splits option.splits bool.splits)
  then show ?thesis
  proof
    assume "st' = st1"
    with inv1 show ?thesis by simp
  next
    assume "\<exists>url tarPath env2 out env3. r = Inr url
            \<and> uploadAndDeploy io args url tarPath st1 env2 = (out, st', env3)"
    then obtain url tarPath env2 out env3 where
      u: "r = Inr url" "uploadAndDeploy io args url tarPath st1 env2 = (out, st', env3)"
      by blast
    with inv1 have "url \<noteq> []" by simp
    from uploadAndDeploy_urls [OF u(2) this] inv1 show ?thesis by simp
  qed
qed

lemma handleListDeploymentRuns_urls:
  assumes "handleListDeploymentRuns io appName st env = (res, st', env')"
    and "urls_nonempty st"
  shows "urls_nonempty st'"
proof -
  obtain r st1 env1 where g: "getServerUrlForApp io appName st env = (r, st1, env1)"
    by (cases "getServerUrlForApp io appName st env")
  note inv1 = getServerUrlForApp_urls [OF g assms(2)]
  have "st' = st1 \<or> (\<exists>runs url eo. r = Inr url \<and> rememberRuns runs url st1 = (eo, st'))"
    using assms(1) g
    by (auto simp: handleListDeploymentRuns_def
          split: prod.splits sum.splits option.splits json.splits)
  then show ?thesis
  proof
    assume "st' = st1"
    with inv1 show ?thesis by simp
  next
    assume "\<exists>runs url eo. r = Inr url \<and> rememberRuns runs url st1 = (eo, st')"
    then obtain runs url eo where rr: "r = Inr url" "rememberRuns runs url st1 = (eo, st')"
      by blast
    with inv1 have "url \<noteq> []" by simp
    from rememberRuns_urls [OF rr(2) this] inv1 show ?thesis by simp
  qed
qed

lemma handleGetDeploymentStatus_urls:
  assumes "handleGetDeploymentStatus io runId st env = (res, st', env')"
    and "urls_nonempty st"
  shows "urls_nonempty st'"
proof -
  obtain r st1 env1 where g: "getServerUrlForRun io runId st env = (r, st1, env1)"
    by (cases "getServerUrlForRun io runId st env")
  have "st' = st1"
    using assms(1) g by (auto simp: handleGetDeploymentStatus_def split: prod.splits sum.splits)
  with getServerUrlForRun_urls [OF g assms(2)] show ?thesis by simp
qed

lemma authorized_urls:
  assumes run: "authorized io h st env = (res, st', env')"
    and inv: "urls_nonempty st"
    and h: "\<And>s e r s' e'. h s e = (r, s', e') \<Longrightarrow> urls_nonempty s \<Longrightarrow> urls_nonempty s'"
  shows "urls_nonempty st'"
proof -
  obtain r st1 env1 where e: "ensureAuth io st env = (r, st1, env1)"
    by (cases "ensureAuth io st env")
  have inv1: "urls_nonempty st1"
    using e inv by (auto simp: ensureAuth_def urls_nonempty_config split: option.splits prod.splits)
  show ?thesis
  proof (cases r)
    case (Inl x)
    with run e have "st' = st1" by (simp add: authorized_def)
    with inv1 show ?thesis by simp
  next
    case (Inr u)
    with run e have "h st1 env1 = (res, st', env')" by (simp add: authorized_def)
    from h [OF this inv1] show ?thesis .
  qed
qed

lemma dispatch_urls:
  assumes run: "dispatch io call st env = (res, st', env')" and inv: "urls_nonempty st"
  shows "urls_nonempty st'"
proof (cases call)
  case GetInstructions
  with run inv show ?thesis
    by (auto simp: dispatch_def handleGetInstructions_def split: option.splits)
next
  case Authenticate
  with run inv show ?thesis
    by (auto simp: dispatch_def handleAuthenticate_def urls_nonempty_def
          split: prod.splits sum.splits)
next
  case CheckAuthStatus
  with run inv show ?thesis
    by (auto simp: dispatch_def handleCheckAuthStatus_def urls_nonempty_config
          split: prod.splits option.splits)
next
  case ListServers
  with run have a: "authorized io
            (\<lambda>s e. case handleListServers io s e of
                      (Inl x, s', e') \<Rightarrow> (Inl x, s', e')
                    | (Inr r, s', e') \<Rightarrow> (Inr (ServersListed r), s', e')) st env = (res, st', env')"
    by (simp add: dispatch_def)
  show ?thesis
    by (rule authorized_urls [OF a inv])
       (auto dest: handleListServers_urls split: prod.splits sum.splits)
next
  case ListApps
  with run have a: "authorized io
            (\<lambda>s e. case handleListApps io s e of
                      (Inl x, s', e') \<Rightarrow> (Inl x, s', e')
                    | (Inr r, s', e') \<Rightarrow> (Inr (AppsListed r), s', e')) st env = (res, st', env')"
    by (simp add: dispatch_def)
  show ?thesis
    by (rule authorized_urls [OF a inv])
       (auto dest: handleListApps_urls split: prod.splits sum.splits)
next
  case (GetAppInfo app)
  with run have a: "authorized io (handleGetAppInfo io app) st env = (res, st', env')"
    by (simp add: dispatch_def)
  show ?thesis by (rule authorized_urls [OF a inv]) (rule handleGetAppInfo_urls)
next
  case (DeployFromGit args)
  with run have a: "authorized io (handleDeployFromGit io args) st env = (res, st', env')"
    by (simp add: dispatch_def)
  show ?thesis by (rule authorized_urls [OF a inv]) (rule handleDeployFromGit_urls)
next
  case (DeployFromLocal args)
  with run have a: "authorized io (handleDeployFromLocal io args) st env = (res, st', env')"
    by (simp add: dispatch_def)
  show ?thesis by (rule authorized_urls [OF a inv]) (rule handleDeployFromLocal_urls)
next
  case (GetDeploymentStatus runId)
  with run have a: "authorized io (handleGetDeploymentStatus io runId) st env = (res, st', env')"
    by (simp add: dispatch_def)
  show ?thesis by (rule authorized_urls [OF a inv]) (rule handleGetDeploymentStatus_urls)
next
  case (ListDeploymentRuns app)
  with run have a: "authorized io (handleListDeploymentRuns io app) st env = (res, st', env')"
    by (simp add: dispatch_def)
  show ?thesis by (rule authorized_urls [OF a inv]) (rule handleListDeploymentRuns_urls)
next
  case (OpenAppUrl app)
  with run have a: "authorized io (handleOpenAppUrl io app) st env = (res, st', env')"
    by (simp add: dispatch_def)
  show ?thesis by (rule authorized_urls [OF a inv]) (rule handleOpenAppUrl_urls)
next
  case (OtherTool name)
  with run inv show ?thesis by (simp add: dispatch_def)
qed

lemma handleToolCall_urls:
  "handleToolCall io call st env = (res, st', env') \<Longrightarrow> urls_nonempty st \<Longrightarrow>
     urls_nonempty st'"
  by (cases "dispatch io call st env")
     (auto simp: handleToolCall_def dest: dispatch_urls split: sum.splits failure.splits)


lemma urls_nonempty_initial: "appServerMap st = [] \<Longrightarrow> runServerMap st = [] \<Longrightarrow> urls_nonempty st"
  by (simp add: urls_nonempty_def)

subsection \<open>What each tool does to the map\<close>

lemma unwrap_nonnull: "unwrap data = Inr result \<Longrightarrow> result \<noteq> JNull"
  by (cases data) (auto simp: unwrap_def split: option.splits if_splits)

lemma js_prop_nonnull: "j \<noteq> JNull \<Longrightarrow> \<exists>v. js_prop (Some j) f = Inr v"
  by (cases j) simp_all

lemma rememberRun_null: "rememberRun result url st = Inl e \<Longrightarrow> result = JNull"
  by (cases result) (auto simp: rememberRun_def split: option.splits if_splits)

lemma set_runs_Nil: "set_runs m [] url = m"
  by (simp add: set_runs_def)

lemma set_runs_Cons: "set_runs m (rid # ids) url = set_runs (map_set m rid url) ids url"
  by (simp add: set_runs_def)

lemma rememberRun_set:
  "rememberRun result url st = Inr st' \<Longrightarrow>
     runServerMap st' = set_runs (runServerMap st)
                          (case reported_id result of None \<Rightarrow> [] | Some rid \<Rightarrow> [rid]) url
     \<and> appServerMap st' = appServerMap st \<and> servers st' = servers st \<and> config st' = config st"
  by (auto simp: rememberRun_def reported_id_def set_runs_def
        split: sum.splits option.splits if_splits)

lemma rememberRuns_set:
  "rememberRuns runs url st = (eo, st') \<Longrightarrow>
     runServerMap st' = set_runs (runServerMap st) (reported_ids runs) url
     \<and> appServerMap st' = appServerMap st"
proof (induction runs arbitrary: st)
  case Nil
  then show ?case by (simp add: set_runs_Nil)
next
  case (Cons a runs)
  show ?case
  proof (cases "rememberRun a url st")
    case (Inl e)
    from rememberRun_null [OF Inl] Inl Cons.prems show ?thesis
      by (simp add: set_runs_Nil)
  next
    case (Inr st1)
    then have nn: "a \<noteq> JNull" by (auto simp: rememberRun_def)
    from Inr Cons.prems have "rememberRuns runs url st1 = (eo, st')" by simp
    from Cons.IH [OF this] rememberRun_set [OF Inr] nn show ?thesis
      by (simp add: set_runs_Nil set_runs_Cons split: option.splits)
  qed
qed

lemma fetchJson_log:
  "fetchJson io req refusal env = (out, env') \<Longrightarrow> \<exists>fr. exchanges env' = exchanges env @ [(req, fr)]"
  by (auto simp: fetchJson_def do_fetch_def response_json_def
        split: prod.splits fetch_result.splits if_splits option.splits sum.splits)

lemma fetchJson_ok:
  "fetchJson io req refusal env = (Inr data, env') \<Longrightarrow>
     \<exists>r. exchanges env' = exchanges env @ [(req, Responded r)] \<and> ok r \<and> body_json r = Some data"
  by (auto simp: fetchJson_def do_fetch_def response_json_def
        split: prod.splits fetch_result.splits if_splits option.splits sum.splits)

lemma getServerUrlForApp_found:
  "getServerUrlForApp io app st env = (Inr url, st', env') \<Longrightarrow> app_server_url st' app = Some url"
  by (auto simp: getServerUrlForApp_def app_server_url_def
        split: option.splits prod.splits sum.splits)

lemma reported_run_answer:
  "ok r \<Longrightarrow> body_json r = Some data \<Longrightarrow> unwrap data = Inr result \<Longrightarrow>
     reported_run (Responded r) = (case reported_id result of None \<Rightarrow> [] | Some rid \<Rightarrow> [rid])"
  by (simp add: reported_run_def)

lemma handleDeployFromGit_recorded:
  assumes run: "handleDeployFromGit io args st env = (res, st', env')"
  shows "(\<forall>e. res = Inl e \<longrightarrow> runServerMap st' = runServerMap st)
     \<and> (\<forall>out. res = Inr out \<longrightarrow>
           recorded POST (git_app_name args) ''/deploy'' reported_run (runServerMap st) st'
             (exchanges env'))"
proof -
  obtain r st1 env1 where g: "getServerUrlForApp io (git_app_name args) st env = (r, st1, env1)"
    by (cases "getServerUrlForApp io (git_app_name args) st env")
  note same = getServerUrlForApp_frame [OF g]
  show ?thesis
  proof (cases r)
    case (Inl e)
    with run g same show ?thesis by (auto simp: handleDeployFromGit_def)
  next
    case (Inr url)
    note found = getServerUrlForApp_found [OF g [unfolded Inr]]
    show ?thesis
    proof (cases "bearer_headers st1")
      case (Inl e)
      with run g same Inr show ?thesis by (auto simp: handleDeployFromGit_def)
    next
      case hd: (Inr hdrs)
      obtain fj env2 where
        f: "fetchJson io (deploy_request url args hdrs)
              (\<lambda>r. DeploymentFailed (status r) (body_text r)) env1 = (fj, env2)"
        by (cases "fetchJson io (deploy_request url args hdrs)
              (\<lambda>r. DeploymentFailed (status r) (body_text r)) env1")
      show ?thesis
      proof (cases fj)
        case (Inl e)
        with run g same Inr hd f show ?thesis by (auto simp: handleDeployFromGit_def)
      next
        case fjr: (Inr data)
        from fetchJson_ok [OF f [unfolded fjr]] obtain r' where
          ex: "exchanges env2 = exchanges env1 @ [(deploy_request url args hdrs, Responded r')]"
          and fr: "ok r'" "body_json r' = Some data"
          by (elim exE conjE)
        show ?thesis
        proof (cases "unwrap data")
          case (Inl e)
          with run g same Inr hd f fjr show ?thesis by (auto simp: handleDeployFromGit_def)
        next
          case uw: (Inr result)
          note nn = unwrap_nonnull [OF uw]
          obtain st2 where rr: "rememberRun result url st1 = Inr st2"
            using rememberRun_null [of result url st1] nn by (cases "rememberRun result url st1") auto
          obtain v1 where p1: "js_prop (Some result) ''run_id'' = Inr v1"
            using js_prop_nonnull [OF nn] by blast
          obtain v2 where p2: "js_prop (Some result) ''status'' = Inr v2"
            using js_prop_nonnull [OF nn] by blast
          have out: "st' = st2" "env' = env2"
            using run g Inr hd f fjr uw rr p1 p2 by (auto simp: handleDeployFromGit_def)
          have "app_server_url st2 (git_app_name args) = Some url"
            using found rememberRun_set [OF rr] by (simp add: app_server_url_def)
          moreover have "runServerMap st2 = set_runs (runServerMap st) (reported_run (Responded r')) url"
            using rememberRun_set [OF rr] same reported_run_answer [OF fr(1) fr(2) uw]
            by simp
          ultimately have "recorded POST (git_app_name args) ''/deploy'' reported_run
                             (runServerMap st) st' (exchanges env')"
            unfolding out by (simp add: recorded_def ex deploy_request_def)
          moreover have "\<exists>out. res = Inr out"
            using run g Inr hd f fjr uw rr p1 p2 by (auto simp: handleDeployFromGit_def)
          ultimately show ?thesis by auto
        qed
      qed
    qed
  qed
qed


lemma uploadAndDeploy_recorded:
  assumes run: "uploadAndDeploy io args url tarPath st env = (res, st', env')"
  shows "appServerMap st' = appServerMap st
     \<and> (\<forall>e. res = Inl e \<longrightarrow> runServerMap st' = runServerMap st)
     \<and> (\<forall>out. res = Inr out \<longrightarrow>
           exchanges env' \<noteq> []
           \<and> req_method (fst (last (exchanges env'))) = POST
           \<and> req_url (fst (last (exchanges env')))
               = url @ ''/api/v1/citizen/apps/'' @ local_app_name args @ ''/deploy-local''
           \<and> runServerMap st' = set_runs (runServerMap st)
                                   (reported_run (snd (last (exchanges env')))) url)"
proof -
  have "((\<exists>e. res = Inl e) \<and> st' = st)
      \<or> (\<exists>hdrs filename env1 data result.
            fetchJson io (deploy_local_request url args hdrs filename)
              (\<lambda>r. DeployFailed (status r) (body_text r)) env1 = (Inr data, env')
            \<and> unwrap data = Inr result \<and> rememberRun result url st = Inr st'
            \<and> (\<exists>out. res = Inr out))"
    using run
    by (auto simp: uploadAndDeploy_def split: prod.splits sum.splits option.splits)
  then show ?thesis
  proof
    assume "(\<exists>e. res = Inl e) \<and> st' = st"
    then show ?thesis by auto
  next
    assume "\<exists>hdrs filename env1 data result.
            fetchJson io (deploy_local_request url args hdrs filename)
              (\<lambda>r. DeployFailed (status r) (body_text r)) env1 = (Inr data, env')
            \<and> unwrap data = Inr result \<and> rememberRun result url st = Inr st'
            \<and> (\<exists>out. res = Inr out)"
    then obtain hdrs filename env1 data result out where
      f: "fetchJson io (deploy_local_request url args hdrs filename)
              (\<lambda>r. DeployFailed (status r) (body_text r)) env1 = (Inr data, env')"
      and uw: "unwrap data = Inr result" and rr: "rememberRun result url st = Inr st'"
      and ok: "res = Inr out"
      by (elim exE conjE)
    from fetchJson_ok [OF f] obtain r' where
      ex: "exchanges env' = exchanges env1 @ [(deploy_local_request url args hdrs filename, Responded r')]"
      and fr: "ok r'" "body_json r' = Some data"
      by (elim exE conjE)
    have m: "runServerMap st' = set_runs (runServerMap st) (reported_run (Responded r')) url"
      using rememberRun_set [OF rr] reported_run_answer [OF fr(1) fr(2) uw] by simp
    from m ok rememberRun_set [OF rr] show ?thesis
      by (simp add: ex deploy_local_request_def)
  qed
qed


lemma handleDeployFromLocal_recorded:
  assumes run: "handleDeployFromLocal io args st env = (res, st', env')"
  shows "(runServerMap st' = runServerMap st
          \<or> recorded POST (local_app_name args) ''/deploy-local'' reported_run (runServerMap st) st'
               (exchanges env'))
     \<and> (\<forall>out. res = Inr out \<longrightarrow>
           recorded POST (local_app_name args) ''/deploy-local'' reported_run (runServerMap st) st'
             (exchanges env'))"
proof -
  obtain r st1 env1 where g: "getServerUrlForApp io (local_app_name args) st env = (r, st1, env1)"
    by (cases "getServerUrlForApp io (local_app_name args) st env")
  note same = getServerUrlForApp_frame [OF g]
  show ?thesis
  proof (cases r)
    case (Inl e)
    with run g same show ?thesis by (auto simp: handleDeployFromLocal_def)
  next
    case (Inr url)
    note found = getServerUrlForApp_found [OF g [unfolded Inr]]
    obtain t w2 where c: "io_create_tar io (directory_path args) (world env1) = (t, w2)"
      by (cases "io_create_tar io (directory_path args) (world env1)")
    show ?thesis
    proof (cases t)
      case None
      with run g same Inr c show ?thesis by (auto simp: handleDeployFromLocal_def)
    next
      case (Some tarPath)
      obtain out st3 env3 where
        u: "uploadAndDeploy io args url tarPath st1 (env1\<lparr>world := w2\<rparr>) = (out, st3, env3)"
        by (cases "uploadAndDeploy io args url tarPath st1 (env1\<lparr>world := w2\<rparr>)")
      obtain b w4 where k: "io_unlink io tarPath (world env3) = (b, w4)"
        by (cases "io_unlink io tarPath (world env3)")
      have fin: "st' = st3" "exchanges env' = exchanges env3" "res = out \<or> (\<exists>e. res = Inl e)"
        using run g Inr c Some u k by (cases b; auto simp: handleDeployFromLocal_def)+
      note ud = uploadAndDeploy_recorded [OF u]
      show ?thesis
      proof (cases out)
        case (Inl e)
        with ud same fin show ?thesis by auto
      next
        case o: (Inr x)
        have "app_server_url st3 (local_app_name args) = Some url"
          using found ud by (simp add: app_server_url_def)
        with ud o same
        have "recorded POST (local_app_name args) ''/deploy-local'' reported_run (runServerMap st)
                st' (exchanges env')"
          by (simp add: recorded_def fin)
        then show ?thesis by simp
      qed
    qed
  qed
qed

lemma listed_runs_answer:
  "ok r \<Longrightarrow> body_json r = Some data \<Longrightarrow> js_prop (Some data) ''data'' = Inr d \<Longrightarrow>
     js_or (js_or d (Some data)) (Some (JArr [])) = Some (JArr runs) \<Longrightarrow>
     listed_runs (Responded r) = reported_ids runs"
  by (simp add: listed_runs_def)

lemma handleListDeploymentRuns_recorded:
  assumes run: "handleListDeploymentRuns io app st env = (res, st', env')"
  shows "(runServerMap st' = runServerMap st
          \<or> recorded GET app ''/runs'' listed_runs (runServerMap st) st' (exchanges env'))
     \<and> (\<forall>out. res = Inr out \<longrightarrow>
           recorded GET app ''/runs'' listed_runs (runServerMap st) st' (exchanges env'))"
proof -
  obtain r st1 env1 where g: "getServerUrlForApp io app st env = (r, st1, env1)"
    by (cases "getServerUrlForApp io app st env")
  note same = getServerUrlForApp_frame [OF g]
  have "((\<exists>e. res = Inl e) \<and> st' = st1)
      \<or> (\<exists>url hdrs data d runs eo.
            r = Inr url
            \<and> fetchJson io (runs_request url app hdrs) (\<lambda>r. ListRunsFailed (status r)) env1
                = (Inr data, env')
            \<and> js_prop (Some data) ''data'' = Inr d
            \<and> js_or (js_or d (Some data)) (Some (JArr [])) = Some (JArr runs)
            \<and> rememberRuns runs url st1 = (eo, st'))"
    using run g
    by (auto simp: handleListDeploymentRuns_def
          split: prod.splits sum.splits option.splits json.splits)
  then show ?thesis
  proof
    assume "(\<exists>e. res = Inl e) \<and> st' = st1"
    with same show ?thesis by auto
  next
    assume "\<exists>url hdrs data d runs eo.
            r = Inr url
            \<and> fetchJson io (runs_request url app hdrs) (\<lambda>r. ListRunsFailed (status r)) env1
                = (Inr data, env')
            \<and> js_prop (Some data) ''data'' = Inr d
            \<and> js_or (js_or d (Some data)) (Some (JArr [])) = Some (JArr runs)
            \<and> rememberRuns runs url st1 = (eo, st')"
    then obtain url hdrs data d runs eo where
      r: "r = Inr url"
      and f: "fetchJson io (runs_request url app hdrs) (\<lambda>r. ListRunsFailed (status r)) env1
                = (Inr data, env')"
      and d: "js_prop (Some data) ''data'' = Inr d"
      and l: "js_or (js_or d (Some data)) (Some (JArr [])) = Some (JArr runs)"
      and rr: "rememberRuns runs url st1 = (eo, st')"
      by (elim exE conjE)
    note found = getServerUrlForApp_found [OF g [unfolded r]]
    from fetchJson_ok [OF f] obtain r' where
      ex: "exchanges env' = exchanges env1 @ [(runs_request url app hdrs, Responded r')]"
      and fr: "ok r'" "body_json r' = Some data"
      by (elim exE conjE)
    have "app_server_url st' app = Some url"
      using found rememberRuns_set [OF rr] by (simp add: app_server_url_def)
    moreover have "runServerMap st' = set_runs (runServerMap st) (listed_runs (Responded r')) url"
      using rememberRuns_set [OF rr] same listed_runs_answer [OF fr d l] by simp
    ultimately have "recorded GET app ''/runs'' listed_runs (runServerMap st) st' (exchanges env')"
      by (simp add: recorded_def ex runs_request_def)
    then show ?thesis by simp
  qed
qed

lemma update_absent: "map_of m k = None \<Longrightarrow> AList.update k v m = m @ [(k, v)]"
  by (induction m) (auto split: if_splits)

lemma probeServers_adds:
  "probeServers io runId srvs st env = (res, st', env') \<Longrightarrow>
     servers st' = servers st
     \<and> (runServerMap st' = runServerMap st
        \<or> (\<exists>s\<in>set srvs. runServerMap st'
              = map_set (runServerMap st) (JStr runId) (''https://'' @ domain s)))"
proof (induction srvs arbitrary: env)
  case Nil
  then show ?case by simp
next
  case (Cons a srvs)
  show ?case
  proof (cases "bearer_headers st")
    case (Inl e)
    with Cons.prems have "probeServers io runId srvs st env = (res, st', env')" by simp
    from Cons.IH [OF this] show ?thesis by auto
  next
    case (Inr hdrs)
    obtain fr env1 where
      f: "do_fetch io (run_request (server_base a) runId hdrs) env = (fr, env1)"
      by (cases "do_fetch io (run_request (server_base a) runId hdrs) env")
    show ?thesis
    proof (cases "responded_2xx fr")
      case True
      with Cons.prems Inr f show ?thesis
        by (auto simp: server_base_def responded_2xx_def split: fetch_result.splits)
    next
      case False
      with Cons.prems Inr f have "probeServers io runId srvs st env1 = (res, st', env')"
        by (auto simp: responded_2xx_def split: fetch_result.splits)
      from Cons.IH [OF this] show ?thesis by auto
    qed
  qed
qed

lemma getServerUrlForRun_adds:
  assumes run: "getServerUrlForRun io runId st env = (res, st', env')"
    and inv: "\<forall>u\<in>snd ` set (runServerMap st). u \<noteq> []"
  shows "runServerMap st' = runServerMap st
     \<or> (map_get (runServerMap st) runId = None
        \<and> (\<exists>s\<in>set (servers st'). runServerMap st'
              = runServerMap st @ [(JStr runId, ''https://'' @ domain s)]))"
proof (cases "map_get (runServerMap st) runId")
  case (Some u)
  then have "u \<noteq> []"
    using inv map_of_in_values [of "runServerMap st" "JStr runId" u] by (auto simp: map_get_def)
  with run Some have "st' = st" by (simp add: getServerUrlForRun_def)
  then show ?thesis by simp
next
  case None
  have "\<exists>st0 env0. runServerMap st0 = runServerMap st
          \<and> ((probeServers io runId (servers st0) st0 env0 = (res, st', env')) \<or> st' = st)"
  proof (cases "servers st = []")
    case True
    obtain r env1 where fs: "fetchServers io st env = (r, env1)"
      by (cases "fetchServers io st env")
    show ?thesis
    proof (cases r)
      case (Inl e)
      with run None True fs have "st' = st" by (simp add: getServerUrlForRun_def)
      then show ?thesis by blast
    next
      case (Inr ss)
      with run None True fs
      have "probeServers io runId (servers (st\<lparr>servers := ss\<rparr>)) (st\<lparr>servers := ss\<rparr>) env1
              = (res, st', env')"
        by (simp add: getServerUrlForRun_def)
      moreover have "runServerMap (st\<lparr>servers := ss\<rparr>) = runServerMap st" by simp
      ultimately show ?thesis by blast
    qed
  next
    case False
    with run None have "probeServers io runId (servers st) st env = (res, st', env')"
      by (simp add: getServerUrlForRun_def)
    then show ?thesis by blast
  qed
  then obtain st0 env0 where
    p: "runServerMap st0 = runServerMap st"
       "probeServers io runId (servers st0) st0 env0 = (res, st', env') \<or> st' = st"
    by blast
  from p(2) show ?thesis
  proof
    assume "st' = st"
    then show ?thesis by simp
  next
    assume pr: "probeServers io runId (servers st0) st0 env0 = (res, st', env')"
    have "map_set (runServerMap st) (JStr runId) v = runServerMap st @ [(JStr runId, v)]" for v
      using None by (simp add: map_set_def map_get_def update_absent)
    with probeServers_adds [OF pr] p(1) None show ?thesis by auto
  qed
qed

lemma handleGetDeploymentStatus_adds:
  assumes run: "handleGetDeploymentStatus io runId st env = (res, st', env')"
    and inv: "\<forall>u\<in>snd ` set (runServerMap st). u \<noteq> []"
  shows "runServerMap st' = runServerMap st
     \<or> (map_get (runServerMap st) runId = None
        \<and> (\<exists>s\<in>set (servers st'). runServerMap st'
              = runServerMap st @ [(JStr runId, ''https://'' @ domain s)]))"
proof -
  obtain r st1 env1 where g: "getServerUrlForRun io runId st env = (r, st1, env1)"
    by (cases "getServerUrlForRun io runId st env")
  have "st' = st1"
    using run g by (auto simp: handleGetDeploymentStatus_def split: prod.splits sum.splits)
  with getServerUrlForRun_adds [OF g inv] show ?thesis by simp
qed

lemma authorized_split:
  assumes run: "authorized io h st env = (res, st', env')"
  shows "((\<exists>e. res = Inl e) \<and> runServerMap st' = runServerMap st)
     \<or> (\<exists>st1 env1. h st1 env1 = (res, st', env') \<and> runServerMap st1 = runServerMap st
            \<and> appServerMap st1 = appServerMap st)"
proof -
  obtain r st1 env1 where e: "ensureAuth io st env = (r, st1, env1)"
    by (cases "ensureAuth io st env")
  have same: "runServerMap st1 = runServerMap st \<and> appServerMap st1 = appServerMap st"
    using e by (auto simp: ensureAuth_def split: option.splits prod.splits)
  show ?thesis
  proof (cases r)
    case (Inl x)
    with run e have "st' = st1" "res = Inl x" by (simp_all add: authorized_def)
    with same show ?thesis by simp
  next
    case (Inr u)
    with run e have "h st1 env1 = (res, st', env')" by (simp add: authorized_def)
    with same show ?thesis by blast
  qed
qed


lemma map_of_map_set_primitive:
  "is_primitive rid \<Longrightarrow> map_of (map_set m rid url) k = (if k = rid then Some url else map_of m k)"
  by (simp add: map_set_def update_conv')

lemma set_runs_lookup:
  "\<forall>rid\<in>set ids. is_primitive rid \<Longrightarrow>
     map_of (set_runs m ids url) k = (if k \<in> set ids then Some url else map_of m k)"
proof (induction ids arbitrary: m)
  case Nil
  then show ?case by (simp add: set_runs_Nil)
next
  case (Cons a ids)
  then show ?case by (simp add: set_runs_Cons map_of_map_set_primitive)
qed

lemma status_call_result:
  "fst status_call = Content (DeploymentStatus
       \<lparr>report_id = Some (JStr ''r7''), report_app = None, report_status = None,
        report_source = Some (JStr ''local upload''), report_steps = None\<rparr>)
   \<and> runServerMap (fst (snd status_call)) = [(JStr ''r7'', ''https://s2.example.com'')]
   \<and> servers (fst (snd status_call)) = [server_a, server_b, server_c]"
  by (simp add: status_defs example_defs)

text \<open>
  C9, as stated, fails where it says that an entry is never overwritten with a different
  URL: two servers may report the same run id. After \<open>blog\<close> is deployed on the first
  server, run \<open>42\<close> is mapped to that server; deploying \<open>shop\<close> on the second server,
  which also answers with run \<open>42\<close>, succeeds and maps run \<open>42\<close> to the second server.
\<close>

theorem run_map_overwritten_counterexample:
  "map_get (runServerMap (fst (snd deploy1))) ''42'' = Some ''https://s1.example.com''
   \<and> fst deploy2 = Content (DeploymentStarted ''s2'' (Some (JStr ''42'')) (Some (JStr ''queued''))
                           ''https://git.example.com/shop.git'' ''main'')
   \<and> map_get (runServerMap (fst (snd deploy2))) ''42'' = Some ''https://s2.example.com''"
  by (simp add: deploy2_def deploy1_def deploy_defs listing_defs example_defs)

text \<open>
  C9, amended: take a tool call made in a state whose cached URLs are non-empty (as they
  are from the start on, and again after every call), that is followed to its result (no
  payload departs from the type the source declares for it) and that is not a successful
  re-authentication. The run-to-server map keeps its entries: the run ids present before
  the call are still present after it, in the same order, and nothing is removed. Tool by
  tool:

  a failed authentication, get instructions, check auth status, list servers, list apps,
  get app info, open app url and an unknown tool leave the map exactly as it was;

  get deployment status leaves the map as it was or, when the run id had no entry, appends
  one entry for that run id, whose URL is \<open>https://\<close> followed by the domain of one of
  the known servers; no existing entry changes;

  deploy from git leaves the map as it was when it fails; when it succeeds, the last
  exchange is the deployment POST to the server cached for the named application, and the
  map is the old one with the run id that the answer reports, if it reports one, set to
  that server's URL: an entry of that run id is overwritten in place, otherwise an entry
  is appended, and every other entry is as it was;

  deploy from local and list deployment runs do the same when they succeed, for the
  deployment POST and for the run-listing GET, the latter setting every run id that the
  listing reports; when they fail, the map is either as it was or changed in that same way
  (the archive could not be removed after the deployment was started; a \<^verbatim>\<open>null\<close>
  entry ended the loop over the listed runs).
\<close>

theorem run_map_entries_kept:
  assumes run: "handleToolCall io call st env = (res, st', env')"
    and followed: "res \<noteq> Unfollowed"
    and notauth: "\<not> (\<exists>c. res = Content (Authenticated c))"
    and inv: "urls_nonempty st"
  shows "runs_kept (runServerMap st) (runServerMap st')
     \<and> urls_nonempty st'
     \<and> (case call of
          DeployFromGit a \<Rightarrow>
            (if \<exists>out. res = Content out
             then recorded POST (git_app_name a) ''/deploy'' reported_run (runServerMap st) st'
                    (exchanges env')
             else runServerMap st' = runServerMap st)
        | DeployFromLocal a \<Rightarrow>
            (runServerMap st' = runServerMap st
             \<or> recorded POST (local_app_name a) ''/deploy-local'' reported_run (runServerMap st) st'
                  (exchanges env'))
            \<and> ((\<exists>out. res = Content out) \<longrightarrow>
                 recorded POST (local_app_name a) ''/deploy-local'' reported_run (runServerMap st) st'
                   (exchanges env'))
        | ListDeploymentRuns app \<Rightarrow>
            (runServerMap st' = runServerMap st
             \<or> recorded GET app ''/runs'' listed_runs (runServerMap st) st' (exchanges env'))
            \<and> ((\<exists>out. res = Content out) \<longrightarrow>
                 recorded GET app ''/runs'' listed_runs (runServerMap st) st' (exchanges env'))
        | GetDeploymentStatus r \<Rightarrow>
            runServerMap st' = runServerMap st
            \<or> (map_get (runServerMap st) r = None
               \<and> (\<exists>s\<in>set (servers st').
                     runServerMap st' = runServerMap st @ [(JStr r, ''https://'' @ domain s)]))
        | _ \<Rightarrow> runServerMap st' = runServerMap st)"
proof -
  obtain r where d: "dispatch io call st env = (r, st', env')"
    and res: "res = (case r of Inr out \<Rightarrow> Content out | Inl (Thrown e) \<Rightarrow> IsError e
                     | Inl OutsideModel \<Rightarrow> Unfollowed)"
    using run
    by (cases "dispatch io call st env")
       (auto simp: handleToolCall_def split: sum.splits failure.splits)
  have na: "\<not> (\<exists>c. r = Inr (Authenticated c))"
    using notauth res by auto
  have content: "r = Inr out" if "res = Content out" for out
    using that res by (auto split: sum.splits failure.splits)
  have failed: "\<forall>out. res \<noteq> Content out" if "r = Inl e" for e
    using that res by (auto split: failure.splits)
  note kept = dispatch_kept [OF d na]
  note inv' = handleToolCall_urls [OF run inv]
  show ?thesis
  proof (cases call)
    case Authenticate
    with d na have "st' = st"
      by (auto simp: dispatch_def handleAuthenticate_def split: prod.splits sum.splits)
    with kept inv' Authenticate show ?thesis by simp
  next
    case (GetDeploymentStatus runId)
    with d have a: "authorized io (handleGetDeploymentStatus io runId) st env = (r, st', env')"
      by (simp add: dispatch_def)
    from authorized_split [OF a]
    have "runServerMap st' = runServerMap st
       \<or> (map_get (runServerMap st) runId = None
          \<and> (\<exists>s\<in>set (servers st').
                runServerMap st' = runServerMap st @ [(JStr runId, ''https://'' @ domain s)]))"
    proof
      assume "(\<exists>e. r = Inl e) \<and> runServerMap st' = runServerMap st"
      then show ?thesis by simp
    next
      assume "\<exists>st1 env1. handleGetDeploymentStatus io runId st1 env1 = (r, st', env')
                \<and> runServerMap st1 = runServerMap st \<and> appServerMap st1 = appServerMap st"
      then obtain st1 env1 where
        h: "handleGetDeploymentStatus io runId st1 env1 = (r, st', env')"
        and same: "runServerMap st1 = runServerMap st"
        by (elim exE conjE)
      have "\<forall>u\<in>snd ` set (runServerMap st1). u \<noteq> []"
        using inv same by (simp add: urls_nonempty_def)
      from handleGetDeploymentStatus_adds [OF h this] same show ?thesis by simp
    qed
    with kept inv' GetDeploymentStatus show ?thesis by simp
  next
    case (DeployFromGit a)
    with d have a: "authorized io (handleDeployFromGit io a) st env = (r, st', env')"
      by (simp add: dispatch_def)
    from authorized_split [OF a]
    have "if \<exists>out. res = Content out
          then recorded POST (git_app_name a) ''/deploy'' reported_run (runServerMap st) st'
                 (exchanges env')
          else runServerMap st' = runServerMap st"
    proof
      assume "(\<exists>e. r = Inl e) \<and> runServerMap st' = runServerMap st"
      with failed show ?thesis by auto
    next
      assume "\<exists>st1 env1. handleDeployFromGit io a st1 env1 = (r, st', env')
                \<and> runServerMap st1 = runServerMap st \<and> appServerMap st1 = appServerMap st"
      then obtain st1 env1 where
        h: "handleDeployFromGit io a st1 env1 = (r, st', env')"
        and same: "runServerMap st1 = runServerMap st"
        by (elim exE conjE)
      show ?thesis
      proof (cases r)
        case (Inl e)
        with handleDeployFromGit_recorded [OF h] same failed show ?thesis by auto
      next
        case (Inr out)
        then have "res = Content out" using res by simp
        with handleDeployFromGit_recorded [OF h] same Inr show ?thesis by auto
      qed
    qed
    with kept inv' DeployFromGit show ?thesis by simp
  next
    case (DeployFromLocal a)
    with d have a: "authorized io (handleDeployFromLocal io a) st env = (r, st', env')"
      by (simp add: dispatch_def)
    from authorized_split [OF a]
    have "(runServerMap st' = runServerMap st
             \<or> recorded POST (local_app_name a) ''/deploy-local'' reported_run (runServerMap st) st'
                  (exchanges env'))
            \<and> ((\<exists>out. res = Content out) \<longrightarrow>
                 recorded POST (local_app_name a) ''/deploy-local'' reported_run (runServerMap st) st'
                   (exchanges env'))"
    proof
      assume "(\<exists>e. r = Inl e) \<and> runServerMap st' = runServerMap st"
      with failed show ?thesis by auto
    next
      assume "\<exists>st1 env1. handleDeployFromLocal io a st1 env1 = (r, st', env')
                \<and> runServerMap st1 = runServerMap st \<and> appServerMap st1 = appServerMap st"
      then obtain st1 env1 where
        h: "handleDeployFromLocal io a st1 env1 = (r, st', env')"
        and same: "runServerMap st1 = runServerMap st"
        by (elim exE conjE)
      from handleDeployFromLocal_recorded [OF h] same content show ?thesis by auto
    qed
    with kept inv' DeployFromLocal show ?thesis by simp
  next
    case (ListDeploymentRuns app)
    with d have a: "authorized io (handleListDeploymentRuns io app) st env = (r, st', env')"
      by (simp add: dispatch_def)
    from authorized_split [OF a]
    have "(runServerMap st' = runServerMap st
             \<or> recorded GET app ''/runs'' listed_runs (runServerMap st) st' (exchanges env'))
            \<and> ((\<exists>out. res = Content out) \<longrightarrow>
                 recorded GET app ''/runs'' listed_runs (runServerMap st) st' (exchanges env'))"
    proof
      assume "(\<exists>e. r = Inl e) \<and> runServerMap st' = runServerMap st"
      with failed show ?thesis by auto
    next
      assume "\<exists>st1 env1. handleListDeploymentRuns io app st1 env1 = (r, st', env')
                \<and> runServerMap st1 = runServerMap st \<and> appServerMap st1 = appServerMap st"
      then obtain st1 env1 where
        h: "handleListDeploymentRuns io app st1 env1 = (r, st', env')"
        and same: "runServerMap st1 = runServerMap st"
        by (elim exE conjE)
      from handleListDeploymentRuns_recorded [OF h] same content show ?thesis by auto
    qed
    with kept inv' ListDeploymentRuns show ?thesis by simp
  qed (use kept inv' dispatch_same [OF d] in simp_all)
qed

theorem run_map_entries_kept_witness:
  "fst deploy2 = Content (DeploymentStarted ''s2'' (Some (JStr ''42'')) (Some (JStr ''queued''))
                          ''https://git.example.com/shop.git'' ''main'')
   \<and> urls_nonempty (fst (snd deploy1))
   \<and> runServerMap (fst (snd deploy1)) = [(JStr ''42'', ''https://s1.example.com'')]
   \<and> runs_kept (runServerMap (fst (snd deploy1))) (runServerMap (fst (snd deploy2)))
   \<and> urls_nonempty (fst (snd deploy2))
   \<and> recorded POST ''shop'' ''/deploy'' reported_run (runServerMap (fst (snd deploy1)))
        (fst (snd deploy2)) (exchanges (snd (snd deploy2)))
   \<and> req_url (fst (last (exchanges (snd (snd deploy2)))))
       = ''https://s2.example.com/api/v1/citizen/apps/shop/deploy''
   \<and> reported_run (snd (last (exchanges (snd (snd deploy2))))) = [JStr ''42'']
   \<and> runServerMap (fst (snd deploy2)) = [(JStr ''42'', ''https://s2.example.com'')]
   \<and> urls_nonempty cold_state
   \<and> runServerMap cold_state = []
   \<and> fst status_call = Content (DeploymentStatus
         \<lparr>report_id = Some (JStr ''r7''), report_app = None, report_status = None,
          report_source = Some (JStr ''local upload''), report_steps = None\<rparr>)
   \<and> runs_kept (runServerMap cold_state) (runServerMap (fst (snd status_call)))
   \<and> urls_nonempty (fst (snd status_call))
   \<and> servers (fst (snd status_call)) = [server_a, server_b, server_c]
   \<and> runServerMap (fst (snd status_call))
       = runServerMap cold_state @ [(JStr ''r7'', ''https://'' @ domain server_b)]"
proof -
  obtain res st' env' where two: "deploy2 = (res, st', env')" by (cases deploy2)
  have run: "handleToolCall (script_io deploy_host) (DeployFromGit shop_args)
               (fst (snd deploy1)) (snd (snd deploy1)) = (res, st', env')"
    using two by (simp add: deploy2_def)
  have out: "fst deploy2 = Content (DeploymentStarted ''s2'' (Some (JStr ''42''))
                                     (Some (JStr ''queued''))
                                     ''https://git.example.com/shop.git'' ''main'')"
    and m1: "runServerMap (fst (snd deploy1)) = [(JStr ''42'', ''https://s1.example.com'')]"
    and m2: "runServerMap (fst (snd deploy2)) = [(JStr ''42'', ''https://s2.example.com'')]"
    and u: "req_url (fst (last (exchanges (snd (snd deploy2)))))
              = ''https://s2.example.com/api/v1/citizen/apps/shop/deploy''"
    and rep: "reported_run (snd (last (exchanges (snd (snd deploy2))))) = [JStr ''42'']"
    by (simp_all add: deploy2_def deploy1_def deploy_defs listing_defs example_defs
          reported_run_def reported_id_def)
  have inv: "urls_nonempty (fst (snd deploy1))"
    by (simp add: urls_nonempty_def deploy1_def deploy_defs listing_defs example_defs)
  have followed: "res \<noteq> Unfollowed" and na: "\<not> (\<exists>c. res = Content (Authenticated c))"
    and ok: "\<exists>out. res = Content out"
    using out unfolding two by simp_all
  have deploy: "runs_kept (runServerMap (fst (snd deploy1))) (runServerMap st')
      \<and> urls_nonempty st'
      \<and> recorded POST ''shop'' ''/deploy'' reported_run (runServerMap (fst (snd deploy1))) st'
          (exchanges env')"
    using run_map_entries_kept [OF run followed na inv] ok by (simp add: shop_args_def)
  obtain res2 st2 env2 where three: "status_call = (res2, st2, env2)" by (cases status_call)
  have run2: "handleToolCall (script_io run_host) (GetDeploymentStatus ''r7'')
                cold_state start_env = (res2, st2, env2)"
    using three by (simp add: status_call_def)
  have inv2: "urls_nonempty cold_state" and m0: "runServerMap cold_state = []"
    by (simp_all add: urls_nonempty_def cold_state_def)
  note status = status_call_result [unfolded three, simplified]
  have followed2: "res2 \<noteq> Unfollowed" and na2: "\<not> (\<exists>c. res2 = Content (Authenticated c))"
    using status by simp_all
  have probe: "runs_kept (runServerMap cold_state) (runServerMap st2) \<and> urls_nonempty st2
      \<and> (runServerMap st2 = runServerMap cold_state
         \<or> (\<exists>s\<in>set (servers st2).
               runServerMap st2 = runServerMap cold_state @ [(JStr ''r7'', ''https://'' @ domain s)]))"
    using run_map_entries_kept [OF run2 followed2 na2 inv2] by auto
  have m3: "runServerMap st2 = runServerMap cold_state @ [(JStr ''r7'', ''https://'' @ domain server_b)]"
    using status by (simp add: m0 server_b_def)
  from deploy probe m3 show ?thesis
    using out m1 m2 u rep inv inv2 m0 status unfolding two three by simp
qed

end
